theory Spec2Isabelle
  imports Main
begin

section \<open>Python values shared by both implementations\<close>

text \<open>
  The exceptions of the source that the model keeps as values: \<^verbatim>\<open>IndexError\<close> of a list
  index out of range, \<^verbatim>\<open>TypeError\<close> of an ordering comparison between an offset-naive
  and an offset-aware datetime, \<^verbatim>\<open>ValueError\<close> of Telethon failing to resolve an
  identifier where the caller has no handler.
\<close>

datatype py_error = IndexError | TypeError | ValueError

text \<open>
  Subscripting a list, \<^verbatim>\<open>messages[i]\<close>: positions \<open>0\<close> to \<open>len - 1\<close> read from the
  front, positions \<open>-len\<close> to \<open>-1\<close> from the back, and any other position raises.
\<close>

definition getitem :: "'a list \<Rightarrow> int \<Rightarrow> py_error + 'a" where
  "getitem xs i =
     (if 0 \<le> i \<and> i < int (length xs) then Inr (xs ! nat i)
      else if i < 0 \<and> - int (length xs) \<le> i then Inr (xs ! nat (int (length xs) + i))
      else Inl IndexError)"

subsection \<open>datetime\<close>

text \<open>
  A \<^verbatim>\<open>datetime\<close> is its wall-clock reading, counted in seconds, and its \<^verbatim>\<open>tzinfo\<close>:
  \<open>None\<close> for an offset-naive value, the UTC offset in seconds for an offset-aware one.
  A time zone gives the UTC offset in force at an instant; \<^verbatim>\<open>datetime.now(tz)\<close> reads
  the clock (the instant \<open>t\<close>, in seconds of UTC) and expresses it in the zone.
\<close>

record datetime =
  wall :: int
  tzinfo :: "int option"

type_synonym zone = "int \<Rightarrow> int"

definition utc :: zone where
  "utc = (\<lambda>t. 0)"

definition datetime_now :: "zone \<Rightarrow> int \<Rightarrow> datetime" where
  "datetime_now tz t = \<lparr>wall = t + tz t, tzinfo = Some (tz t)\<rparr>"

definition hour :: "datetime \<Rightarrow> int" where
  "hour d = (wall d div 3600) mod 24"

text \<open>\<^verbatim>\<open>d.replace(hour=0, minute=0, second=0, microsecond=0)\<close>\<close>

definition replace_midnight :: "datetime \<Rightarrow> datetime" where
  "replace_midnight d = d\<lparr>wall := wall d - wall d mod 86400\<rparr>"

text \<open>\<^verbatim>\<open>d.replace(tzinfo=z)\<close> keeps the wall-clock reading and swaps the zone.\<close>

definition replace_tzinfo :: "int option \<Rightarrow> datetime \<Rightarrow> datetime" where
  "replace_tzinfo z d = d\<lparr>tzinfo := z\<rparr>"

text \<open>The instant an offset-aware value denotes (a naive one is read as UTC).\<close>

definition instant :: "datetime \<Rightarrow> int" where
  "instant d = wall d - (case tzinfo d of None \<Rightarrow> 0 | Some off \<Rightarrow> off)"

text \<open>\<^verbatim>\<open>d.astimezone(timezone.utc)\<close> on an offset-aware value.\<close>

definition astimezone_utc :: "datetime \<Rightarrow> datetime" where
  "astimezone_utc d = \<lparr>wall = instant d, tzinfo = Some 0\<rparr>"

subsection \<open>The Telethon client\<close>

text \<open>
  A Telethon message as the code reads it: \<^verbatim>\<open>m.id\<close>, \<^verbatim>\<open>m.date\<close>, \<^verbatim>\<open>m.message\<close> (the
  text; \<open>None\<close> or empty when there is none) and whether \<^verbatim>\<open>m.media\<close> is set.
\<close>

record message =
  msg_id :: int
  msg_date :: datetime
  msg_text :: "string option"
  msg_media :: bool

datatype send_result = Sent | FloodWait nat | SendFailed

text \<open>One dialog of \<^verbatim>\<open>iter_dialogs\<close>, with the attributes \<^verbatim>\<open>list_public_groups\<close> reads.\<close>

record dialog =
  is_group :: bool
  megagroup :: "bool option"
  username :: "string option"

text \<open>
  The backend behind the client, as far as the code calls it: which identifiers
  \<^verbatim>\<open>get_entity\<close> resolves, the source channel's history (newest first), the outcome of the
  \<open>n\<close>-th \<^verbatim>\<open>forward_messages\<close> call by target and payload, and the account's dialogs.
\<close>

record client =
  entities :: "string \<Rightarrow> bool"
  history :: "message list"
  forward_result :: "nat \<Rightarrow> string \<Rightarrow> message list \<Rightarrow> send_result"
  dialogs :: "dialog list"

text \<open>
  \<^verbatim>\<open>get_messages(channel, limit=l, offset_id=o)\<close>: the \<open>l\<close> newest messages with an id
  below \<open>o\<close> (all of them for \<open>o = 0\<close>), newest first.
  \<^verbatim>\<open>get_messages(channel, limit=l, min_id=w)\<close>: the \<open>l\<close> newest messages with an id
  above \<open>w\<close>, newest first. This is the Feed Gateway's contract (\<open>fetchPage\<close>,
  \<open>fetchSince\<close>) as Telethon documents it.
\<close>

definition get_messages_offset :: "client \<Rightarrow> nat \<Rightarrow> int \<Rightarrow> message list" where
  "get_messages_offset c l offset_id =
     take l (filter (\<lambda>m. offset_id = 0 \<or> msg_id m < offset_id) (history c))"

definition get_messages_min :: "client \<Rightarrow> nat \<Rightarrow> int \<Rightarrow> message list" where
  "get_messages_min c l min_id = take l (filter (\<lambda>m. min_id < msg_id m) (history c))"

text \<open>What a run does to the outside, in order.\<close>

datatype event =
    GetEntity string bool
  | GetMessagesOffset nat int
  | GetMessagesMin nat int
  | Forward string "int list" send_result
  | Sleep nat
  | SetLastForwardedId int

text \<open>The ids a target has received: the payloads of the forwards to it that succeeded.\<close>

fun delivered :: "string \<Rightarrow> event list \<Rightarrow> int list" where
  "delivered tg [] = []"
| "delivered tg (Forward tg' ids r # evs) =
     (if tg' = tg \<and> r = Sent then ids @ delivered tg evs else delivered tg evs)"
| "delivered tg (e # evs) = delivered tg evs"

text \<open>The targets of the \<^verbatim>\<open>forward_messages\<close> calls of a run, in order.\<close>

fun attempts :: "event list \<Rightarrow> string list" where
  "attempts [] = []"
| "attempts (Forward tg ids r # evs) = tg # attempts evs"
| "attempts (e # evs) = attempts evs"

fun is_fetch :: "event \<Rightarrow> bool" where
  "is_fetch (GetMessagesOffset l off) = True"
| "is_fetch (GetMessagesMin l w) = True"
| "is_fetch e = False"

fun is_forward :: "event \<Rightarrow> bool" where
  "is_forward (Forward tg ids r) = True"
| "is_forward e = False"

section \<open>teleforwarder/domain\<close>

record text_message =
  message_id :: int
  date :: datetime
  content :: string
  raw :: "message option"

text \<open>
  \<^verbatim>\<open>round_robin(messages, index)\<close> is a generator. Its run is the list of the pairs it
  yields, in order, together with the exception that ends it, if one does; after the last
  pair the generator is exhausted. The body is
  \<^verbatim>\<open>for _ in range(length): yield i, messages[i]; i = (i + 1) % length\<close>.
\<close>

fun round_robin_loop :: "'a list \<Rightarrow> nat \<Rightarrow> int \<Rightarrow> (int \<times> 'a) list \<times> py_error option" where
  "round_robin_loop messages 0 i = ([], None)"
| "round_robin_loop messages (Suc k) i =
     (case getitem messages i of
        Inl e \<Rightarrow> ([], Some e)
      | Inr m \<Rightarrow>
          (let (ys, r) = round_robin_loop messages k ((i + 1) mod int (length messages))
           in ((i, m) # ys, r)))"

definition round_robin :: "'a list \<Rightarrow> int \<Rightarrow> (int \<times> 'a) list \<times> py_error option" where
  "round_robin messages index =
     (if messages = [] then ([], None)
      else round_robin_loop messages (length messages) index)"

text \<open>
  The caller's idiom of the docstring and of \<^verbatim>\<open>run_forever\<close>,
  \<^verbatim>\<open>for idx, msg in round_robin(msgs, idx): ...\<close>: the loop target \<^verbatim>\<open>idx\<close> is
  assigned at every yield, so after the loop the caller's cursor is the index of the last
  pair yielded (and is unchanged when nothing was yielded).
\<close>

definition cursor_after :: "(int \<times> 'a) list \<Rightarrow> int \<Rightarrow> int" where
  "cursor_after ys idx = (if ys = [] then idx else fst (last ys))"

text \<open>
  \<open>resume_sweeps k msgs idx\<close>: the pairs seen by a caller that runs the idiom \<open>k\<close>
  times in a row on the same list, each time passing the cursor it kept.
\<close>

fun resume_sweeps :: "nat \<Rightarrow> 'a list \<Rightarrow> int \<Rightarrow> (int \<times> 'a) list" where
  "resume_sweeps 0 msgs idx = []"
| "resume_sweeps (Suc k) msgs idx =
     (let ys = fst (round_robin msgs idx)
      in ys @ resume_sweeps k msgs (cursor_after ys idx))"

section \<open>teleforwarder/config.py and infrastructure\<close>

record settings =
  source_channel :: string
  forward_to :: string
  target_groups :: "string list"
  timezone :: zone
  start_hour :: int
  end_hour :: int
  sleep_between_messages :: nat

text \<open>\<^verbatim>\<open>start_of_today(tz_name)\<close>: midnight of the current local day, offset-aware.\<close>

definition start_of_today :: "zone \<Rightarrow> int \<Rightarrow> datetime" where
  "start_of_today tz t = replace_midnight (datetime_now tz t)"

text \<open>
  \<^verbatim>\<open>m.date.replace(tzinfo=None) < day_start.replace(tzinfo=None)\<close>: both sides lose
  their zone, so the wall-clock readings are compared as they stand.
\<close>

definition before_day_start :: "datetime \<Rightarrow> datetime \<Rightarrow> bool" where
  "before_day_start d day_start =
     (wall (replace_tzinfo None d) < wall (replace_tzinfo None day_start))"

definition has_text :: "message \<Rightarrow> bool" where
  "has_text m = (case msg_text m of None \<Rightarrow> False | Some s \<Rightarrow> s \<noteq> [])"

text \<open>
  \<^verbatim>\<open>if m.message and m.media is None: msgs.append(TextMessage(...))\<close>: the messages
  this one contributes (one or none).
\<close>

definition text_message_of :: "message \<Rightarrow> text_message list" where
  "text_message_of m =
     (case msg_text m of
        None \<Rightarrow> []
      | Some s \<Rightarrow>
          if s \<noteq> [] \<and> \<not> msg_media m
          then [\<lparr>message_id = msg_id m, date = msg_date m, content = s, raw = Some m\<rparr>]
          else [])"

text \<open>The \<^verbatim>\<open>for m in chunk\<close> loop of \<^verbatim>\<open>fetch_today_texts\<close>, with its \<^verbatim>\<open>break\<close>.\<close>

fun scan_today :: "datetime \<Rightarrow> message list \<Rightarrow> text_message list" where
  "scan_today day_start [] = []"
| "scan_today day_start (m # ms) =
     (if before_day_start (msg_date m) day_start then []
      else text_message_of m @ scan_today day_start ms)"

text \<open>
  The \<^verbatim>\<open>while True\<close> loop of \<^verbatim>\<open>fetch_today_texts\<close>; \<open>None\<close> is a loop that never
  leaves. The events are the \<^verbatim>\<open>get_messages\<close> calls made.
\<close>

partial_function (option) fetch_today_loop ::
  "client \<Rightarrow> datetime \<Rightarrow> int \<Rightarrow> text_message list \<Rightarrow> event list
     \<Rightarrow> (text_message list \<times> event list) option" where
  "fetch_today_loop c day_start offset msgs evs =
     (let chunk = get_messages_offset c 100 offset;
          evs' = evs @ [GetMessagesOffset 100 offset]
      in if chunk = [] then Some (msgs, evs')
         else (let msgs' = msgs @ scan_today day_start chunk
               in if before_day_start (msg_date (last chunk)) day_start
                  then Some (msgs', evs')
                  else fetch_today_loop c day_start (msg_id (last chunk)) msgs' evs'))"

definition fetch_today_texts ::
  "client \<Rightarrow> zone \<Rightarrow> int \<Rightarrow> (text_message list \<times> event list) option" where
  "fetch_today_texts c tz t =
     map_option (\<lambda>(msgs, evs). (rev msgs, evs))
       (fetch_today_loop c (start_of_today tz t) 0 [] [])"

text \<open>\<^verbatim>\<open>list_public_groups\<close>\<close>

definition handle :: "string \<Rightarrow> string" where
  "handle u = (if take 1 u = ''@'' then u else ''@'' @ u)"

fun list_public_groups_loop :: "dialog list \<Rightarrow> string list" where
  "list_public_groups_loop [] = []"
| "list_public_groups_loop (d # ds) =
     (let group = (is_group d \<or> (case megagroup d of None \<Rightarrow> False | Some b \<Rightarrow> b))
      in (case username d of
            None \<Rightarrow> []
          | Some u \<Rightarrow> if group \<and> u \<noteq> [] then [handle u] else [])
         @ list_public_groups_loop ds)"

definition list_public_groups :: "client \<Rightarrow> string list" where
  "list_public_groups c = list_public_groups_loop (dialogs c)"

text \<open>
  \<^verbatim>\<open>forward_text(targets, message, delay)\<close>. \<open>n\<close> counts the \<^verbatim>\<open>forward_messages\<close> calls
  made so far; the result is the new count and the events. A send that succeeds is followed
  by \<^verbatim>\<open>sleep(delay)\<close>, a \<^verbatim>\<open>FloodWaitError\<close> by \<^verbatim>\<open>sleep(fwe.seconds)\<close>, any other
  exception is logged; the loop then goes on with the next target in every case.
\<close>

fun forward_text_loop ::
  "client \<Rightarrow> nat \<Rightarrow> string list \<Rightarrow> message \<Rightarrow> nat \<Rightarrow> nat \<times> event list" where
  "forward_text_loop c n [] m delay = (n, [])"
| "forward_text_loop c n (tg # tgs) m delay =
     (let r = forward_result c n tg [m];
          evs = (case r of
                   Sent \<Rightarrow> [Forward tg [msg_id m] r, Sleep delay]
                 | FloodWait s \<Rightarrow> [Forward tg [msg_id m] r, Sleep s]
                 | SendFailed \<Rightarrow> [Forward tg [msg_id m] r]);
          (n', rest) = forward_text_loop c (Suc n) tgs m delay
      in (n', evs @ rest))"

definition forward_text ::
  "client \<Rightarrow> nat \<Rightarrow> string list \<Rightarrow> text_message \<Rightarrow> nat \<Rightarrow> nat \<times> event list" where
  "forward_text c n targets message delay =
     (case raw message of
        None \<Rightarrow> (n, [])
      | Some m \<Rightarrow> forward_text_loop c n targets m delay)"

section \<open>teleforwarder/application/use_cases.py\<close>

text \<open>The state of \<^verbatim>\<open>ForwardDailyTexts\<close>: \<^verbatim>\<open>_messages\<close> and \<^verbatim>\<open>_idx\<close>.\<close>

record forwarder =
  messages :: "text_message list"
  idx :: int

definition load_targets :: "settings \<Rightarrow> client \<Rightarrow> string list" where
  "load_targets s c =
     (if forward_to s = ''all'' then list_public_groups c else target_groups s)"

definition in_allowed_window :: "settings \<Rightarrow> int \<Rightarrow> bool" where
  "in_allowed_window s t =
     (let now_local = datetime_now (timezone s) t
      in start_hour s \<le> hour now_local \<and> hour now_local < end_hour s)"

text \<open>
  The body of \<^verbatim>\<open>for self._idx, msg in round_robin(...)\<close>: the cursor takes the yielded
  index, the message goes to every target with \<^verbatim>\<open>delay=1\<close>, then the loop sleeps.
\<close>

fun sweep ::
  "client \<Rightarrow> nat \<Rightarrow> string list \<Rightarrow> nat \<Rightarrow> (int \<times> text_message) list \<Rightarrow> int
     \<Rightarrow> int \<times> nat \<times> event list" where
  "sweep c n targets pause [] i = (i, n, [])"
| "sweep c n targets pause ((j, msg) # ys) i =
     (let (n1, evs1) = forward_text c n targets msg 1;
          (i', n2, evs2) = sweep c n1 targets pause ys j
      in (i', n2, evs1 @ [Sleep pause] @ evs2))"

datatype control = Continue | Return | Raise py_error

text \<open>
  One iteration of the \<^verbatim>\<open>while True\<close> loop of \<^verbatim>\<open>run_forever\<close>: how the iteration ends
  (\<open>Continue\<close> with the next iteration, \<open>Return\<close> from the function, or an exception
  leaving it), the state, the count of sends and the events. \<open>t_check\<close> is the clock
  reading of the window check, \<open>t_fetch\<close> that of \<^verbatim>\<open>start_of_today\<close>. Telethon resolves
  the channel name at the first \<^verbatim>\<open>get_messages\<close> and raises when it cannot;
  \<^verbatim>\<open>run_forever\<close> has no handler for it.
\<close>

definition run_forever_step ::
  "settings \<Rightarrow> client \<Rightarrow> int \<Rightarrow> int \<Rightarrow> nat \<Rightarrow> forwarder
     \<Rightarrow> (control \<times> forwarder \<times> nat \<times> event list) option" where
  "run_forever_step s c t_check t_fetch n fw =
     (if \<not> in_allowed_window s t_check
      then Some (Continue, fw, n, [Sleep (sleep_between_messages s)])
      else if \<not> entities c (source_channel s)
      then Some (Raise ValueError, fw, n, [GetEntity (source_channel s) False])
      else (case fetch_today_texts c (timezone s) t_fetch of
              None \<Rightarrow> None
            | Some (msgs, evs) \<Rightarrow>
                (let fw1 = \<lparr>messages = msgs, idx = 0\<rparr>;
                     targets = load_targets s c
                 in if targets = [] then Some (Return, fw1, n, evs)
                    else if messages fw1 = []
                    then Some (Continue, fw1, n, evs @ [Sleep (sleep_between_messages s)])
                    else (let (ys, err) = round_robin (messages fw1) (idx fw1);
                              (i, n', evs') =
                                sweep c n targets (sleep_between_messages s) ys (idx fw1)
                          in Some ((case err of None \<Rightarrow> Continue | Some e \<Rightarrow> Raise e),
                                   fw1\<lparr>idx := i\<rparr>, n', evs @ evs')))))"

text \<open>
  The refresh condition as the specification words it: the set behind the cursor needs
  refreshing when a new calendar day has started since it was resolved (at \<open>t_resolved\<close>)
  or when it is empty.
\<close>

definition spec_needs_refresh :: "zone \<Rightarrow> int \<Rightarrow> int \<Rightarrow> forwarder \<Rightarrow> bool" where
  "spec_needs_refresh tz t_resolved t fw =
     (start_of_today tz t \<noteq> start_of_today tz t_resolved \<or> messages fw = [])"

section \<open>src/utils: the scheduled forwarder\<close>

text \<open>
  \<^verbatim>\<open>config.json\<close> as the code reads it: every key may be absent, and each read
  \<^verbatim>\<open>cfg.get(key, default)\<close> names its default.
\<close>

record config =
  cfg_source_channel :: "string option"
  cfg_supergroups :: "string list option"
  cfg_forward_mode :: "string option"
  cfg_forward_order :: "string option"
  cfg_time_interval_enabled :: "bool option"
  cfg_start_hour :: "int option"
  cfg_end_hour :: "int option"
  cfg_last_forwarded_id :: "int option"

definition dict_get :: "'a option \<Rightarrow> 'a \<Rightarrow> 'a" where
  "dict_get v d = (case v of None \<Rightarrow> d | Some x \<Rightarrow> x)"

definition get_last_forwarded_id :: "config \<Rightarrow> int" where
  "get_last_forwarded_id cfg = dict_get (cfg_last_forwarded_id cfg) 0"

definition set_last_forwarded_id :: "config \<Rightarrow> int \<Rightarrow> config" where
  "set_last_forwarded_id cfg i = cfg\<lparr>cfg_last_forwarded_id := Some i\<rparr>"

text \<open>
  \<^verbatim>\<open>fetch_all_today_messages\<close>: the date of a message is made offset-aware UTC
  (\<^verbatim>\<open>astimezone\<close> when it has a zone, \<^verbatim>\<open>replace(tzinfo=utc)\<close> otherwise) and compared,
  as an instant, with midnight UTC of the current day.
\<close>

definition msg_date_utc :: "message \<Rightarrow> datetime" where
  "msg_date_utc m =
     (if tzinfo (msg_date m) \<noteq> None then astimezone_utc (msg_date m)
      else replace_tzinfo (Some 0) (msg_date m))"

fun scan_all_today :: "datetime \<Rightarrow> message list \<Rightarrow> message list" where
  "scan_all_today start [] = []"
| "scan_all_today start (m # ms) =
     (if instant start \<le> instant (msg_date_utc m) then m # scan_all_today start ms
      else [])"

partial_function (option) fetch_all_today_loop ::
  "client \<Rightarrow> datetime \<Rightarrow> int \<Rightarrow> message list \<Rightarrow> event list
     \<Rightarrow> (message list \<times> event list) option" where
  "fetch_all_today_loop c start offset_id all_messages evs =
     (let chunk = get_messages_offset c 100 offset_id;
          evs' = evs @ [GetMessagesOffset 100 offset_id]
      in if chunk = [] then Some (all_messages, evs')
         else (let all_messages' = all_messages @ scan_all_today start chunk
               in if instant (msg_date_utc (last chunk)) < instant start
                  then Some (all_messages', evs')
                  else fetch_all_today_loop c start (msg_id (last chunk)) all_messages' evs'))"

definition start_of_today_aware :: "int \<Rightarrow> datetime" where
  "start_of_today_aware t = replace_midnight (datetime_now utc t)"

definition fetch_all_today_messages ::
  "client \<Rightarrow> int \<Rightarrow> (message list \<times> event list) option" where
  "fetch_all_today_messages c t =
     map_option (\<lambda>(ms, evs). (rev ms, evs))
       (fetch_all_today_loop c (start_of_today_aware t) 0 [] [])"

text \<open>
  \<^verbatim>\<open>messages_to_forward.sort(key=lambda m: m.date)\<close>: a stable sort by date. Python
  refuses to order an offset-naive against an offset-aware datetime, and a sort of a list
  holding both has to compare such a pair.
\<close>

definition sort_by_date :: "message list \<Rightarrow> py_error + message list" where
  "sort_by_date ms =
     (if list_ex (\<lambda>m. tzinfo (msg_date m) = None) ms
         \<and> list_ex (\<lambda>m. tzinfo (msg_date m) \<noteq> None) ms
      then Inl TypeError
      else Inr (sort_key (\<lambda>m. instant (msg_date m)) ms))"

text \<open>
  The \<^verbatim>\<open>for msg in messages_to_forward\<close> loop of the one-by-one order, inside the
  \<^verbatim>\<open>try\<close>: the first send that raises ends the loop for this supergroup.
\<close>

fun forward_each :: "client \<Rightarrow> nat \<Rightarrow> string \<Rightarrow> message list \<Rightarrow> nat \<times> event list" where
  "forward_each c n sg [] = (n, [])"
| "forward_each c n sg (m # ms) =
     (let r = forward_result c n sg [m]
      in if r = Sent
         then (let (n', evs) = forward_each c (Suc n) sg ms
               in (n', Forward sg [msg_id m] r # Sleep 1 # evs))
         else (Suc n, [Forward sg [msg_id m] r]))"

text \<open>
  The \<^verbatim>\<open>for sg in supergroups\<close> loop: whatever is raised for one supergroup (by
  \<^verbatim>\<open>get_entity\<close> or by a send) is caught and logged, and the loop goes on.
\<close>

fun forward_supergroups ::
  "client \<Rightarrow> nat \<Rightarrow> string \<Rightarrow> string list \<Rightarrow> message list \<Rightarrow> nat \<times> event list" where
  "forward_supergroups c n forward_order [] ms = (n, [])"
| "forward_supergroups c n forward_order (sg # sgs) ms =
     (let (n1, evs1) =
            (if \<not> entities c sg then (n, [GetEntity sg False])
             else if forward_order = ''batch''
             then (Suc n, [GetEntity sg True,
                           Forward sg (map msg_id ms) (forward_result c n sg ms)])
             else (let (n', evs) = forward_each c n sg ms
                   in (n', GetEntity sg True # evs)));
          (n2, evs2) = forward_supergroups c n1 forward_order sgs ms
      in (n2, evs1 @ evs2))"

text \<open>
  The window check of \<^verbatim>\<open>forward_messages_async\<close>: \<^verbatim>\<open>now\<close> is the clock in UTC.
\<close>

definition time_window_open :: "config \<Rightarrow> int \<Rightarrow> bool" where
  "time_window_open cfg t =
     (let now = datetime_now utc t
      in if dict_get (cfg_time_interval_enabled cfg) True
         then (let start_hour = dict_get (cfg_start_hour cfg) 8;
                   end_hour = dict_get (cfg_end_hour cfg) 22
               in start_hour \<le> hour now \<and> hour now < end_hour)
         else True)"

text \<open>The two ways \<^verbatim>\<open>messages_to_forward\<close> is built, by mode.\<close>

definition resolve_messages ::
  "client \<Rightarrow> int \<Rightarrow> config \<Rightarrow> string \<Rightarrow> ((py_error + message list) \<times> event list) option" where
  "resolve_messages c t cfg forward_mode =
     (if forward_mode = ''today''
      then map_option (\<lambda>(ms, evs). (Inr ms, evs)) (fetch_all_today_messages c t)
      else (let last_id = get_last_forwarded_id cfg;
                msgs_chunk = get_messages_min c 100 last_id
            in Some (sort_by_date msgs_chunk, [GetMessagesMin 100 last_id])))"

text \<open>
  What one run of \<^verbatim>\<open>forward_messages_async\<close> leaves behind: the exception that left it
  (if one did), the configuration, \<^verbatim>\<open>messages_to_forward\<close> as delivered (empty when the
  run did not get to deliver) and the events.
\<close>

record cycle =
  raised :: "py_error option"
  config_after :: config
  resolved :: "message list"
  trace :: "event list"

text \<open>Lines 84 to 102: the delivery to the supergroups and the new watermark.\<close>

definition deliver_and_record ::
  "client \<Rightarrow> config \<Rightarrow> string \<Rightarrow> message list \<Rightarrow> event list \<Rightarrow> cycle" where
  "deliver_and_record c cfg forward_mode messages_to_forward evs =
     (let supergroups = dict_get (cfg_supergroups cfg) [];
          forward_order = dict_get (cfg_forward_order cfg) ''one_by_one'';
          (n, fevs) = forward_supergroups c 0 forward_order supergroups messages_to_forward
      in if forward_mode = ''new'' \<and> messages_to_forward \<noteq> []
         then (let max_id = Max (msg_id ` set messages_to_forward)
               in \<lparr>raised = None, config_after = set_last_forwarded_id cfg max_id,
                   resolved = messages_to_forward,
                   trace = evs @ fevs @ [SetLastForwardedId max_id]\<rparr>)
         else \<lparr>raised = None, config_after = cfg, resolved = messages_to_forward,
               trace = evs @ fevs\<rparr>)"

definition forward_messages_async :: "client \<Rightarrow> int \<Rightarrow> config \<Rightarrow> cycle option" where
  "forward_messages_async c t cfg =
     (if \<not> time_window_open cfg t
      then Some \<lparr>raised = None, config_after = cfg, resolved = [], trace = []\<rparr>
      else (let source_channel = dict_get (cfg_source_channel cfg) ''@somechannel''
            in if \<not> entities c source_channel
               then Some \<lparr>raised = None, config_after = cfg, resolved = [],
                          trace = [GetEntity source_channel False]\<rparr>
               else (let forward_mode = dict_get (cfg_forward_mode cfg) ''new''
                     in (case resolve_messages c t cfg forward_mode of
                           None \<Rightarrow> None
                         | Some (Inl e, evs) \<Rightarrow>
                             Some \<lparr>raised = Some e, config_after = cfg, resolved = [],
                                   trace = GetEntity source_channel True # evs\<rparr>
                         | Some (Inr messages_to_forward, evs) \<Rightarrow>
                             if messages_to_forward = []
                             then Some \<lparr>raised = None, config_after = cfg, resolved = [],
                                        trace = GetEntity source_channel True # evs\<rparr>
                             else Some (deliver_and_record c cfg forward_mode
                                          messages_to_forward
                                          (GetEntity source_channel True # evs))))))"

text \<open>
  The scheduler runs \<^verbatim>\<open>forward_messages_async\<close> once per trigger, each time against
  the backend and the clock of that moment, on the configuration the run before left.
  A run whose paging loop never ends is the last.
\<close>

fun run_cycles :: "(client \<times> int) list \<Rightarrow> config \<Rightarrow> cycle list" where
  "run_cycles [] cfg = []"
| "run_cycles ((c, t) # ticks) cfg =
     (case forward_messages_async c t cfg of
        None \<Rightarrow> []
      | Some r \<Rightarrow> r # run_cycles ticks (config_after r))"

section \<open>Example inputs\<close>

definition tehran :: zone where
  "tehran = (\<lambda>t. 12600)"

definition demo_settings :: settings where
  "demo_settings =
     \<lparr>source_channel = ''@src'', forward_to = ''list'', target_groups = [''@g1'', ''@g2''],
      timezone = tehran, start_hour = 8, end_hour = 22, sleep_between_messages = 60\<rparr>"

definition demo_config :: config where
  "demo_config =
     \<lparr>cfg_source_channel = Some ''@src'', cfg_supergroups = Some [''@g1'', ''@g2'', ''@g3''],
      cfg_forward_mode = Some ''new'', cfg_forward_order = Some ''one_by_one'',
      cfg_time_interval_enabled = Some True, cfg_start_hour = Some 8,
      cfg_end_hour = Some 22, cfg_last_forwarded_id = Some 42\<rparr>"

definition flood_client :: client where
  "flood_client =
     \<lparr>entities = (\<lambda>x. True), history = [],
      forward_result = (\<lambda>n tg ms. if tg = ''@g2'' then FloodWait 30 else Sent),
      dialogs = []\<rparr>"

definition demo_message :: message where
  "demo_message =
     \<lparr>msg_id = 7, msg_date = \<lparr>wall = 36000, tzinfo = Some 0\<rparr>,
      msg_text = Some ''hello'', msg_media = False\<rparr>"

definition demo_text_message :: text_message where
  "demo_text_message =
     \<lparr>message_id = 7, date = \<lparr>wall = 36000, tzinfo = Some 0\<rparr>,
      content = ''hello'', raw = Some demo_message\<rparr>"

definition mk_message :: "int \<Rightarrow> int \<Rightarrow> message" where
  "mk_message i w =
     \<lparr>msg_id = i, msg_date = \<lparr>wall = w, tzinfo = Some 0\<rparr>, msg_text = Some ''text'',
      msg_media = False\<rparr>"

definition example_client :: client where
  "example_client =
     \<lparr>entities = (\<lambda>x. x \<noteq> ''@gone''),
      history = [mk_message 50 36000, mk_message 44 35000, mk_message 43 34000,
                 mk_message 41 33000, mk_message 40 32000],
      forward_result = (\<lambda>n tg ms. if tg = ''@g2'' then SendFailed else Sent),
      dialogs = []\<rparr>"

definition gone_client :: client where
  "gone_client = example_client\<lparr>entities := (\<lambda>x. False)\<rparr>"

definition long_client :: client where
  "long_client = example_client\<lparr>history := map (\<lambda>i. mk_message i i) (rev [1..101])\<rparr>"

definition fresh_config :: config where
  "fresh_config = demo_config\<lparr>cfg_last_forwarded_id := Some 0\<rparr>"

definition zoned_message :: "int \<Rightarrow> int \<Rightarrow> int \<Rightarrow> message" where
  "zoned_message i w off =
     \<lparr>msg_id = i, msg_date = \<lparr>wall = w, tzinfo = Some off\<rparr>, msg_text = Some ''text'',
      msg_media = False\<rparr>"

definition day_client :: client where
  "day_client =
     example_client\<lparr>history := [zoned_message 3 36000 12600, zoned_message 2 60 12600,
                                zoned_message 1 (- 600) 12600]\<rparr>"

definition utc_day_client :: client where
  "utc_day_client =
     example_client\<lparr>history := [mk_message 3 36000, mk_message 2 60, mk_message 1 (- 600)]\<rparr>"

definition photo_message :: message where
  "photo_message =
     \<lparr>msg_id = 7, msg_date = \<lparr>wall = 30000, tzinfo = Some 0\<rparr>, msg_text = None,
      msg_media = True\<rparr>"

definition photo_client :: client where
  "photo_client = example_client\<lparr>history := [photo_message]\<rparr>"

definition day_messages :: "text_message list" where
  "day_messages =
     [\<lparr>message_id = 2, date = \<lparr>wall = 60, tzinfo = Some 12600\<rparr>, content = ''text'',
       raw = Some (zoned_message 2 60 12600)\<rparr>,
      \<lparr>message_id = 3, date = \<lparr>wall = 36000, tzinfo = Some 12600\<rparr>, content = ''text'',
       raw = Some (zoned_message 3 36000 12600)\<rparr>]"

definition utc_dated_client :: client where
  "utc_dated_client = example_client\<lparr>history := [zoned_message 2 (- 12540) 0]\<rparr>"

section \<open>The round-robin cursor\<close>

lemma round_robin_empty: "round_robin [] index = ([], None)"
  by (simp add: round_robin_def)

lemma round_robin_three_from_one:
  "round_robin [a, b, c] 1 = ([(1, b), (2, c), (0, a)], None)"
  by (simp add: round_robin_def getitem_def numeral_3_eq_3)

lemma round_robin_three_from_zero:
  "round_robin [a, b, c] 0 = ([(0, a), (1, b), (2, c)], None)"
  by (simp add: round_robin_def getitem_def numeral_3_eq_3)

text \<open>
  C1. On a set of length 3 from position 1, one invocation yields exactly three pairs, at
  the indices 1, 2, 0, and is then exhausted; the cursor the caller keeps is the index
  just visited (0), not the next one, so the resumed invocation starts again at 0: the
  first five pairs seen across invocations are at the indices 1, 2, 0, 0, 1, and not at
  1, 2, 0, 1, 2. The empty set yields no pair and raises nothing.
\<close>

theorem round_robin_resume_revisits:
  "fst (round_robin [a, b, c] 1) = [(1, b), (2, c), (0, a)]
   \<and> snd (round_robin [a, b, c] 1) = None
   \<and> cursor_after (fst (round_robin [a, b, c] 1)) 1 = 0
   \<and> map fst (take 5 (resume_sweeps 2 [a, b, c] 1)) = [1, 2, 0, 0, 1]
   \<and> map fst (take 5 (resume_sweeps 2 [a, b, c] 1)) \<noteq> [1, 2, 0, 1, 2]
   \<and> round_robin ([] :: 'a list) index = ([], None)"
  by (simp add: round_robin_three_from_one round_robin_three_from_zero round_robin_empty
      cursor_after_def numeral_2_eq_2)

section \<open>Admission\<close>

lemma deliver_and_record_trace:
  "evs \<noteq> [] \<Longrightarrow> trace (deliver_and_record c cfg mode ms evs) \<noteq> []"
  by (simp add: deliver_and_record_def Let_def case_prod_beta)

lemma open_cycle_trace:
  assumes "time_window_open cfg t" and "forward_messages_async c t cfg = Some r"
  shows "trace r \<noteq> []"
proof (cases "entities c (dict_get (cfg_source_channel cfg) ''@somechannel'')")
  case False
  with assms show ?thesis by (auto simp add: forward_messages_async_def Let_def)
next
  case True
  show ?thesis
  proof (cases "resolve_messages c t cfg (dict_get (cfg_forward_mode cfg) ''new'')")
    case None
    with assms True show ?thesis by (simp add: forward_messages_async_def Let_def)
  next
    case (Some p)
    obtain res evs where p: "p = (res, evs)" by (cases p)
    show ?thesis
    proof (cases res)
      case (Inl e)
      with assms True Some p show ?thesis
        by (auto simp add: forward_messages_async_def Let_def)
    next
      case (Inr ms)
      with assms True Some p show ?thesis
        by (auto simp add: forward_messages_async_def Let_def deliver_and_record_trace
            split: if_splits)
    qed
  qed
qed

lemma cycle_skipped_iff:
  "forward_messages_async c t cfg
     = Some \<lparr>raised = None, config_after = cfg, resolved = [], trace = []\<rparr>
   \<longleftrightarrow> \<not> time_window_open cfg t"
proof
  assume a: "forward_messages_async c t cfg
     = Some \<lparr>raised = None, config_after = cfg, resolved = [], trace = []\<rparr>"
  show "\<not> time_window_open cfg t"
  proof
    assume "time_window_open cfg t"
    from open_cycle_trace [OF this a] show False by simp
  qed
next
  assume "\<not> time_window_open cfg t"
  then show "forward_messages_async c t cfg
     = Some \<lparr>raised = None, config_after = cfg, resolved = [], trace = []\<rparr>"
    by (simp add: forward_messages_async_def)
qed

text \<open>
  C2. Admission holds exactly when the start hour is at most the hour of the current
  moment and that hour is below the end hour: in \<^verbatim>\<open>_in_allowed_window\<close> the hour is
  read in the configured time zone, in \<^verbatim>\<open>forward_messages_async\<close> in UTC, and there a
  window that is disabled admits every moment. With a start hour below the end hour, the
  start hour itself is admitted; the end hour never is. The scheduled run returns at once,
  having done and changed nothing, exactly when the moment is not admitted.
\<close>

theorem admission_window:
  "(in_allowed_window s t \<longleftrightarrow>
      start_hour s \<le> hour (datetime_now (timezone s) t)
      \<and> hour (datetime_now (timezone s) t) < end_hour s)
   \<and> (time_window_open cfg t \<longleftrightarrow>
        (dict_get (cfg_time_interval_enabled cfg) True \<longrightarrow>
           dict_get (cfg_start_hour cfg) 8 \<le> hour (datetime_now utc t)
           \<and> hour (datetime_now utc t) < dict_get (cfg_end_hour cfg) 22))
   \<and> (\<not> dict_get (cfg_time_interval_enabled cfg) True \<longrightarrow> time_window_open cfg t)
   \<and> (hour (datetime_now (timezone s) t) = start_hour s \<and> start_hour s < end_hour s
        \<longrightarrow> in_allowed_window s t)
   \<and> (hour (datetime_now (timezone s) t) = end_hour s \<longrightarrow> \<not> in_allowed_window s t)
   \<and> (hour (datetime_now utc t) = dict_get (cfg_start_hour cfg) 8
        \<and> dict_get (cfg_start_hour cfg) 8 < dict_get (cfg_end_hour cfg) 22
        \<longrightarrow> time_window_open cfg t)
   \<and> (dict_get (cfg_time_interval_enabled cfg) True
        \<and> hour (datetime_now utc t) = dict_get (cfg_end_hour cfg) 22
        \<longrightarrow> \<not> time_window_open cfg t)
   \<and> (forward_messages_async c t cfg
         = Some \<lparr>raised = None, config_after = cfg, resolved = [], trace = []\<rparr>
        \<longleftrightarrow> \<not> time_window_open cfg t)"
proof -
  have g: "in_allowed_window s t \<longleftrightarrow>
      start_hour s \<le> hour (datetime_now (timezone s) t)
      \<and> hour (datetime_now (timezone s) t) < end_hour s"
    by (simp add: in_allowed_window_def Let_def)
  have l: "time_window_open cfg t \<longleftrightarrow>
        (dict_get (cfg_time_interval_enabled cfg) True \<longrightarrow>
           dict_get (cfg_start_hour cfg) 8 \<le> hour (datetime_now utc t)
           \<and> hour (datetime_now utc t) < dict_get (cfg_end_hour cfg) 22)"
    by (simp add: time_window_open_def Let_def)
  show ?thesis
    unfolding cycle_skipped_iff using g l by auto
qed

theorem admission_window_witness:
  "in_allowed_window demo_settings 16200
   \<and> \<not> in_allowed_window demo_settings 66600
   \<and> time_window_open demo_config 28800
   \<and> \<not> time_window_open demo_config 79200
   \<and> time_window_open (demo_config\<lparr>cfg_time_interval_enabled := Some False\<rparr>) 79200"
proof -
  have s: "hour (datetime_now (timezone demo_settings) 16200) = start_hour demo_settings
           \<and> start_hour demo_settings < end_hour demo_settings"
    by (simp add: hour_def datetime_now_def tehran_def demo_settings_def)
  have e: "hour (datetime_now (timezone demo_settings) 66600) = end_hour demo_settings"
    by (simp add: hour_def datetime_now_def tehran_def demo_settings_def)
  have s': "hour (datetime_now utc 28800) = dict_get (cfg_start_hour demo_config) 8
            \<and> dict_get (cfg_start_hour demo_config) 8 < dict_get (cfg_end_hour demo_config) 22"
    by (simp add: hour_def datetime_now_def utc_def demo_config_def dict_get_def)
  have e': "dict_get (cfg_time_interval_enabled demo_config) True
            \<and> hour (datetime_now utc 79200) = dict_get (cfg_end_hour demo_config) 22"
    by (simp add: hour_def datetime_now_def utc_def demo_config_def dict_get_def)
  have d: "\<not> dict_get (cfg_time_interval_enabled
                (demo_config\<lparr>cfg_time_interval_enabled := Some False\<rparr>)) True"
    by (simp add: dict_get_def)
  have 1: "in_allowed_window demo_settings 16200"
    using admission_window [of demo_settings 16200] s by blast
  have 2: "\<not> in_allowed_window demo_settings 66600"
    using admission_window [of demo_settings 66600] e by blast
  have 3: "time_window_open demo_config 28800"
    using admission_window [of _ 28800 demo_config] s' by blast
  have 4: "\<not> time_window_open demo_config 79200"
    using admission_window [of _ 79200 demo_config] e' by blast
  have 5: "time_window_open (demo_config\<lparr>cfg_time_interval_enabled := Some False\<rparr>) 79200"
    using admission_window [of _ 79200 "demo_config\<lparr>cfg_time_interval_enabled := Some False\<rparr>"] d
    by blast
  show ?thesis using 1 2 3 4 5 by blast
qed

section \<open>The delivery executor\<close>

lemma attempts_append: "attempts (xs @ ys) = attempts xs @ attempts ys"
  by (induction xs rule: attempts.induct) simp_all

lemma delivered_append: "delivered tg (xs @ ys) = delivered tg xs @ delivered tg ys"
  by (induction tg xs rule: delivered.induct) simp_all

lemma forward_text_loop_count: "fst (forward_text_loop c n tgs m d) = n + length tgs"
  by (induction tgs arbitrary: n) (simp_all add: Let_def case_prod_beta)

lemma forward_text_loop_append:
  "snd (forward_text_loop c n (xs @ ys) m d)
     = snd (forward_text_loop c n xs m d) @ snd (forward_text_loop c (n + length xs) ys m d)"
  by (induction xs arbitrary: n) (simp_all add: Let_def case_prod_beta)

lemma attempts_forward_text_loop: "attempts (snd (forward_text_loop c n tgs m d)) = tgs"
  by (induction tgs arbitrary: n)
    (simp_all add: Let_def case_prod_beta attempts_append split: send_result.splits)

text \<open>
  C8. When the send of a message to a target of \<^verbatim>\<open>forward_text\<close> is answered by a
  flood-wait of \<open>s\<close> seconds, the events of that target are the one send and a sleep of
  exactly \<open>s\<close> seconds, followed at once by the run over the targets after it; every
  target is sent to exactly once, in order, so the refused send is not repeated; and the
  sweep goes on to its pause and to the next message.
\<close>

theorem forward_text_rate_limited:
  assumes "raw message = Some m"
    and "forward_result c (n + length pre) tg [m] = FloodWait s"
  shows "snd (forward_text c n (pre @ tg # post) message delay)
           = snd (forward_text_loop c n pre m delay)
             @ [Forward tg [msg_id m] (FloodWait s), Sleep s]
             @ snd (forward_text_loop c (Suc (n + length pre)) post m delay)
         \<and> attempts (snd (forward_text c n (pre @ tg # post) message delay)) = pre @ tg # post
         \<and> fst (forward_text c n (pre @ tg # post) message delay)
             = n + length (pre @ tg # post)
         \<and> snd (snd (sweep c n (pre @ tg # post) pause ((j, message) # ys) i))
             = snd (forward_text c n (pre @ tg # post) message 1) @ Sleep pause
               # snd (snd (sweep c (n + length (pre @ tg # post)) (pre @ tg # post) pause ys j))"
proof -
  have "snd (forward_text_loop c (n + length pre) (tg # post) m delay)
          = [Forward tg [msg_id m] (FloodWait s), Sleep s]
            @ snd (forward_text_loop c (Suc (n + length pre)) post m delay)"
    using assms(2) by (simp add: Let_def case_prod_beta)
  then have 1: "snd (forward_text c n (pre @ tg # post) message delay)
           = snd (forward_text_loop c n pre m delay)
             @ [Forward tg [msg_id m] (FloodWait s), Sleep s]
             @ snd (forward_text_loop c (Suc (n + length pre)) post m delay)"
    using assms(1) by (simp add: forward_text_def forward_text_loop_append)
  have 2: "attempts (snd (forward_text c n (pre @ tg # post) message delay)) = pre @ tg # post"
    using assms(1) by (simp add: forward_text_def attempts_forward_text_loop)
  have 3: "fst (forward_text c n (pre @ tg # post) message delay)
             = n + length (pre @ tg # post)"
    using assms(1) by (simp add: forward_text_def forward_text_loop_count)
  have 4: "snd (snd (sweep c n (pre @ tg # post) pause ((j, message) # ys) i))
             = snd (forward_text c n (pre @ tg # post) message 1) @ Sleep pause
               # snd (snd (sweep c (n + length (pre @ tg # post)) (pre @ tg # post) pause ys j))"
    using assms(1)
    by (simp add: Let_def case_prod_beta forward_text_def forward_text_loop_count)
  show ?thesis using 1 2 3 4 by blast
qed

theorem forward_text_rate_limited_witness:
  "snd (forward_text flood_client 0 [''@g1'', ''@g2'', ''@g3''] demo_text_message 1)
     = [Forward ''@g1'' [7] Sent, Sleep 1, Forward ''@g2'' [7] (FloodWait 30), Sleep 30,
        Forward ''@g3'' [7] Sent, Sleep 1]"
proof -
  have r: "raw demo_text_message = Some demo_message"
    by (simp add: demo_text_message_def)
  have f: "forward_result flood_client (0 + length [''@g1'']) ''@g2'' [demo_message]
             = FloodWait 30"
    by (simp add: flood_client_def)
  show ?thesis
    using forward_text_rate_limited [OF r f, of "[''@g3'']" 1 1 0 "[]" 0]
    by (simp add: flood_client_def demo_message_def Let_def)
qed

section \<open>The scheduled run, case by case\<close>

lemma deliver_and_record_simps:
  "raised (deliver_and_record c cfg mode ms evs) = None"
  "resolved (deliver_and_record c cfg mode ms evs) = ms"
  "config_after (deliver_and_record c cfg mode ms evs)
     = (if mode = ''new'' \<and> ms \<noteq> [] then set_last_forwarded_id cfg (Max (msg_id ` set ms))
        else cfg)"
  "trace (deliver_and_record c cfg mode ms evs)
     = evs @ snd (forward_supergroups c 0 (dict_get (cfg_forward_order cfg) ''one_by_one'')
                    (dict_get (cfg_supergroups cfg) []) ms)
       @ (if mode = ''new'' \<and> ms \<noteq> [] then [SetLastForwardedId (Max (msg_id ` set ms))]
          else [])"
  by (simp_all add: deliver_and_record_def Let_def case_prod_beta)

lemma cycle_unavailable:
  assumes "time_window_open cfg t"
    and "\<not> entities c (dict_get (cfg_source_channel cfg) ''@somechannel'')"
  shows "forward_messages_async c t cfg
           = Some \<lparr>raised = None, config_after = cfg, resolved = [],
                   trace = [GetEntity (dict_get (cfg_source_channel cfg) ''@somechannel'') False]\<rparr>"
  using assms by (simp add: forward_messages_async_def Let_def)

lemma cycle_resolved:
  assumes "time_window_open cfg t"
    and "entities c (dict_get (cfg_source_channel cfg) ''@somechannel'')"
  shows "forward_messages_async c t cfg
           = (case resolve_messages c t cfg (dict_get (cfg_forward_mode cfg) ''new'') of
                None \<Rightarrow> None
              | Some (Inl e, evs) \<Rightarrow>
                  Some \<lparr>raised = Some e, config_after = cfg, resolved = [],
                        trace = GetEntity (dict_get (cfg_source_channel cfg) ''@somechannel'') True
                                # evs\<rparr>
              | Some (Inr ms, evs) \<Rightarrow>
                  if ms = []
                  then Some \<lparr>raised = None, config_after = cfg, resolved = [],
                        trace = GetEntity (dict_get (cfg_source_channel cfg) ''@somechannel'') True
                                # evs\<rparr>
                  else Some (deliver_and_record c cfg (dict_get (cfg_forward_mode cfg) ''new'') ms
                        (GetEntity (dict_get (cfg_source_channel cfg) ''@somechannel'') True
                         # evs)))"
  using assms by (simp add: forward_messages_async_def Let_def)

text \<open>Whatever a run that returns did, its configuration is the old one or the old one
  with a new watermark, the greatest id of a non-empty incremental fetch.\<close>

lemma cycle_config_after:
  assumes "forward_messages_async c t cfg = Some r"
  shows "config_after r = cfg
         \<or> (\<exists>ms evs. ms \<noteq> [] \<and> resolved r = ms
              \<and> resolve_messages c t cfg ''new'' = Some (Inr ms, evs)
              \<and> dict_get (cfg_forward_mode cfg) ''new'' = ''new''
              \<and> config_after r = set_last_forwarded_id cfg (Max (msg_id ` set ms)))"
proof (cases "time_window_open cfg t")
  case False
  with assms show ?thesis by (auto simp add: forward_messages_async_def)
next
  case op: True
  show ?thesis
  proof (cases "entities c (dict_get (cfg_source_channel cfg) ''@somechannel'')")
    case False
    with assms op show ?thesis by (auto simp add: cycle_unavailable)
  next
    case True
    note eq = cycle_resolved [OF op True]
    show ?thesis
    proof (cases "resolve_messages c t cfg (dict_get (cfg_forward_mode cfg) ''new'')")
      case None
      with assms eq show ?thesis by simp
    next
      case (Some p)
      obtain res evs where p: "p = (res, evs)" by (cases p)
      show ?thesis
      proof (cases res)
        case (Inl e)
        with assms eq Some p show ?thesis by auto
      next
        case (Inr ms)
        show ?thesis
        proof (cases "ms = []")
          case True
          with assms eq Some p Inr show ?thesis by auto
        next
          case False
          with assms eq Some p Inr
          have r: "r = deliver_and_record c cfg (dict_get (cfg_forward_mode cfg) ''new'') ms
                     (GetEntity (dict_get (cfg_source_channel cfg) ''@somechannel'') True # evs)"
            by simp
          show ?thesis
          proof (cases "dict_get (cfg_forward_mode cfg) ''new'' = ''new''")
            case True
            with r False Some p Inr show ?thesis
              by (simp add: deliver_and_record_simps)
          next
            case False
            with r show ?thesis by (simp add: deliver_and_record_simps)
          qed
        qed
      qed
    qed
  qed
qed

lemma get_messages_min_above:
  "m \<in> set (get_messages_min c l w) \<Longrightarrow> w < msg_id m \<and> m \<in> set (history c)"
  by (auto simp add: get_messages_min_def dest: in_set_takeD)

lemma sort_by_date_set: "sort_by_date ms = Inr ms' \<Longrightarrow> set ms' = set ms"
  by (auto simp add: sort_by_date_def split: if_splits)

lemma sort_by_date_length: "sort_by_date ms = Inr ms' \<Longrightarrow> length ms' = length ms"
  by (auto simp add: sort_by_date_def split: if_splits)

lemma sort_by_date_sorted:
  "sort_by_date ms = Inr ms' \<Longrightarrow> sorted (map (\<lambda>m. instant (msg_date m)) ms')"
  by (auto simp add: sort_by_date_def split: if_splits)

lemma sort_by_date_aware:
  "\<forall>m\<in>set ms. tzinfo (msg_date m) \<noteq> None
   \<Longrightarrow> sort_by_date ms = Inr (sort_key (\<lambda>m. instant (msg_date m)) ms)"
  by (auto simp add: sort_by_date_def list_ex_iff)

lemma resolve_new_above:
  assumes "resolve_messages c t cfg ''new'' = Some (Inr ms, evs)"
  shows "\<forall>m\<in>set ms. get_last_forwarded_id cfg < msg_id m \<and> m \<in> set (history c)"
proof -
  from assms have "sort_by_date (get_messages_min c 100 (get_last_forwarded_id cfg)) = Inr ms"
    by (simp add: resolve_messages_def Let_def)
  from sort_by_date_set [OF this] show ?thesis
    by (auto dest: get_messages_min_above)
qed

lemma watermark_step:
  assumes "forward_messages_async c t cfg = Some r"
  shows "get_last_forwarded_id cfg \<le> get_last_forwarded_id (config_after r)"
proof -
  from cycle_config_after [OF assms] show ?thesis
  proof
    assume "config_after r = cfg"
    then show ?thesis by simp
  next
    assume "\<exists>ms evs. ms \<noteq> [] \<and> resolved r = ms
              \<and> resolve_messages c t cfg ''new'' = Some (Inr ms, evs)
              \<and> dict_get (cfg_forward_mode cfg) ''new'' = ''new''
              \<and> config_after r = set_last_forwarded_id cfg (Max (msg_id ` set ms))"
    then obtain ms evs where ms: "ms \<noteq> []"
      and res: "resolve_messages c t cfg ''new'' = Some (Inr ms, evs)"
      and ca: "config_after r = set_last_forwarded_id cfg (Max (msg_id ` set ms))"
      by blast
    from ms obtain m where m: "m \<in> set ms" by (cases ms) auto
    with resolve_new_above [OF res] have "get_last_forwarded_id cfg < msg_id m" by blast
    moreover have "msg_id m \<le> Max (msg_id ` set ms)" using m by simp
    ultimately show ?thesis
      using ca by (simp add: get_last_forwarded_id_def set_last_forwarded_id_def dict_get_def)
  qed
qed

lemma watermark_chain:
  "sorted (map get_last_forwarded_id (cfg # map config_after (run_cycles ticks cfg)))"
proof (induction ticks arbitrary: cfg)
  case Nil
  then show ?case by simp
next
  case (Cons tick ticks)
  obtain c t where tick: "tick = (c, t)" by (cases tick)
  show ?case
  proof (cases "forward_messages_async c t cfg")
    case None
    with tick show ?thesis by simp
  next
    case (Some r)
    from Cons.IH [of "config_after r"]
    have s: "sorted (map get_last_forwarded_id
                  (config_after r # map config_after (run_cycles ticks (config_after r))))" .
    have le: "get_last_forwarded_id cfg \<le> get_last_forwarded_id (config_after r)"
      by (rule watermark_step [OF Some])
    from s have "\<forall>x\<in>set (run_cycles ticks (config_after r)).
               get_last_forwarded_id (config_after r) \<le> get_last_forwarded_id (config_after x)"
      by simp
    with le have "\<forall>x\<in>set (run_cycles ticks (config_after r)).
               get_last_forwarded_id cfg \<le> get_last_forwarded_id (config_after x)"
      by (meson order_trans)
    with s le tick Some show ?thesis by simp
  qed
qed

text \<open>
  C5. The watermark read after a run of \<^verbatim>\<open>forward_messages_async\<close> that returns is at
  least the watermark read before it; hence along any sequence of scheduled runs, each on
  the configuration the run before left, the watermarks never decrease.
\<close>

theorem watermark_monotone:
  "(forward_messages_async c t cfg = Some r
      \<longrightarrow> get_last_forwarded_id cfg \<le> get_last_forwarded_id (config_after r))
   \<and> sorted (map get_last_forwarded_id (cfg # map config_after (run_cycles ticks cfg)))"
  using watermark_step [of c t cfg r] watermark_chain [of cfg ticks] by blast

text \<open>
  C7. When \<^verbatim>\<open>get_entity\<close> cannot resolve the source channel, the run returns without
  an exception, with the configuration (and so the watermark) as it was, nothing resolved,
  and no fetch and no send among its events; the next scheduled run starts from the same
  configuration.
\<close>

theorem source_unavailable_aborts:
  assumes "\<not> entities c (dict_get (cfg_source_channel cfg) ''@somechannel'')"
  shows "\<exists>r. forward_messages_async c t cfg = Some r
           \<and> raised r = None \<and> config_after r = cfg \<and> resolved r = []
           \<and> \<not> list_ex is_fetch (trace r) \<and> \<not> list_ex is_forward (trace r)
           \<and> run_cycles ((c, t) # ticks) cfg = r # run_cycles ticks cfg"
proof (cases "time_window_open cfg t")
  case False
  then show ?thesis by (simp add: forward_messages_async_def)
next
  case True
  from cycle_unavailable [OF True assms] show ?thesis by simp
qed

section \<open>Delivery to the supergroups\<close>

lemma cycle_new_delivers:
  assumes "time_window_open cfg t"
    and "entities c (dict_get (cfg_source_channel cfg) ''@somechannel'')"
    and "dict_get (cfg_forward_mode cfg) ''new'' = ''new''"
    and "resolve_messages c t cfg ''new'' = Some (Inr ms, evs)"
    and "ms \<noteq> []"
  shows "forward_messages_async c t cfg
           = Some (deliver_and_record c cfg ''new'' ms
                (GetEntity (dict_get (cfg_source_channel cfg) ''@somechannel'') True # evs))"
  using assms by (simp add: cycle_resolved)

lemma resolve_new_aware:
  assumes "\<forall>m\<in>set (history c). tzinfo (msg_date m) \<noteq> None"
  shows "resolve_messages c t cfg ''new''
           = Some (Inr (sort_key (\<lambda>m. instant (msg_date m))
                          (get_messages_min c 100 (get_last_forwarded_id cfg))),
                   [GetMessagesMin 100 (get_last_forwarded_id cfg)])"
proof -
  have "\<forall>m\<in>set (get_messages_min c 100 (get_last_forwarded_id cfg)).
          tzinfo (msg_date m) \<noteq> None"
    using assms by (auto dest: get_messages_min_above)
  from sort_by_date_aware [OF this] show ?thesis
    by (simp add: resolve_messages_def Let_def)
qed

lemma forward_each_all_sent:
  assumes "\<forall>n p. forward_result c n sg p = Sent"
  shows "delivered sg (snd (forward_each c n sg ms)) = map msg_id ms"
  using assms by (induction ms arbitrary: n) (simp_all add: Let_def case_prod_beta)

lemma forward_supergroups_delivered:
  assumes "sg \<in> set sgs" and "entities c sg" and "\<forall>n p. forward_result c n sg p = Sent"
  shows "set (map msg_id ms)
           \<subseteq> set (delivered sg (snd (forward_supergroups c n forward_order sgs ms)))"
  using assms(1)
proof (induction sgs arbitrary: n)
  case Nil
  then show ?case by simp
next
  case (Cons x sgs)
  show ?case
  proof (cases "x = sg")
    case True
    show ?thesis
    proof (cases "forward_order = ''batch''")
      case b: True
      with True assms(2,3) show ?thesis
        by (simp add: Let_def case_prod_beta delivered_append)
    next
      case False
      with True assms(2,3) show ?thesis
        by (simp add: Let_def case_prod_beta delivered_append forward_each_all_sent)
    qed
  next
    case False
    with Cons.prems have "sg \<in> set sgs" by simp
    from Cons.IH [OF this] show ?thesis
      by (auto simp add: Let_def case_prod_beta delivered_append)
  qed
qed

lemma forward_text_loop_delivered:
  assumes "tg \<in> set tgs" and "\<forall>n p. forward_result c n tg p = Sent"
  shows "msg_id m \<in> set (delivered tg (snd (forward_text_loop c n tgs m d)))"
  using assms(1)
proof (induction tgs arbitrary: n)
  case Nil
  then show ?case by simp
next
  case (Cons x tgs)
  show ?case
  proof (cases "x = tg")
    case True
    with assms(2) show ?thesis
      by (simp add: Let_def case_prod_beta delivered_append)
  next
    case False
    with Cons.prems have "tg \<in> set tgs" by simp
    from Cons.IH [OF this] show ?thesis
      by (auto simp add: Let_def case_prod_beta delivered_append)
  qed
qed

text \<open>
  C6. In a scheduled run in incremental mode that has resolved a non-empty set, whatever
  happens at the other supergroups, the delivery step ends without an exception, every
  supergroup that resolves and whose sends succeed has received every message of the set,
  and the watermark stored is the greatest id of the set. Likewise \<^verbatim>\<open>forward_text\<close>
  delivers its message to every target whose send succeeds, whatever the others answer.
\<close>

theorem partial_failure_isolation:
  assumes "time_window_open cfg t"
    and "entities c (dict_get (cfg_source_channel cfg) ''@somechannel'')"
    and "dict_get (cfg_forward_mode cfg) ''new'' = ''new''"
    and "resolve_messages c t cfg ''new'' = Some (Inr ms, evs)"
    and "ms \<noteq> []"
  shows "(\<exists>r. forward_messages_async c t cfg = Some r
            \<and> raised r = None \<and> resolved r = ms
            \<and> get_last_forwarded_id (config_after r) = Max (msg_id ` set ms)
            \<and> (\<forall>sg\<in>set (dict_get (cfg_supergroups cfg) []).
                  entities c sg \<and> (\<forall>n p. forward_result c n sg p = Sent)
                  \<longrightarrow> set (map msg_id ms) \<subseteq> set (delivered sg (trace r))))
         \<and> (\<forall>message m targets k delay. raw message = Some m
              \<longrightarrow> (\<forall>tg\<in>set targets. (\<forall>n p. forward_result c n tg p = Sent)
                    \<longrightarrow> msg_id m
                          \<in> set (delivered tg (snd (forward_text c k targets message delay)))))"
proof -
  let ?r = "deliver_and_record c cfg ''new'' ms
              (GetEntity (dict_get (cfg_source_channel cfg) ''@somechannel'') True # evs)"
  have 1: "forward_messages_async c t cfg = Some ?r"
    by (rule cycle_new_delivers [OF assms])
  have 2: "raised ?r = None" "resolved ?r = ms"
    by (simp_all add: deliver_and_record_simps)
  have 3: "get_last_forwarded_id (config_after ?r) = Max (msg_id ` set ms)"
    using assms(5)
    by (simp add: deliver_and_record_simps get_last_forwarded_id_def
        set_last_forwarded_id_def dict_get_def)
  have 4: "\<forall>sg\<in>set (dict_get (cfg_supergroups cfg) []).
             entities c sg \<and> (\<forall>n p. forward_result c n sg p = Sent)
             \<longrightarrow> set (map msg_id ms) \<subseteq> set (delivered sg (trace ?r))"
  proof (intro ballI impI)
    fix sg
    assume sg: "sg \<in> set (dict_get (cfg_supergroups cfg) [])"
      and ok: "entities c sg \<and> (\<forall>n p. forward_result c n sg p = Sent)"
    from forward_supergroups_delivered [OF sg, of c ms 0
        "dict_get (cfg_forward_order cfg) ''one_by_one''"] ok
    show "set (map msg_id ms) \<subseteq> set (delivered sg (trace ?r))"
      by (auto simp add: deliver_and_record_simps delivered_append)
  qed
  have 5: "\<forall>message m targets k delay. raw message = Some m
              \<longrightarrow> (\<forall>tg\<in>set targets. (\<forall>n p. forward_result c n tg p = Sent)
                    \<longrightarrow> msg_id m
                          \<in> set (delivered tg (snd (forward_text c k targets message delay))))"
    by (simp add: forward_text_def forward_text_loop_delivered)
  from 1 2 3 4 5 show ?thesis by blast
qed

lemma example_resolved:
  "resolve_messages example_client 36000 demo_config ''new''
     = Some (Inr [mk_message 43 34000, mk_message 44 35000, mk_message 50 36000],
             [GetMessagesMin 100 42])"
proof -
  have a: "\<forall>m\<in>set (history example_client). tzinfo (msg_date m) \<noteq> None"
    by (simp add: example_client_def mk_message_def)
  show ?thesis
    unfolding resolve_new_aware [OF a]
    by (simp add: get_messages_min_def get_last_forwarded_id_def dict_get_def demo_config_def
        example_client_def mk_message_def instant_def)
qed

lemma example_open: "time_window_open demo_config 36000"
  by (simp add: time_window_open_def demo_config_def dict_get_def Let_def hour_def
      datetime_now_def utc_def)

theorem partial_failure_isolation_witness:
  "\<exists>r. forward_messages_async example_client 36000 demo_config = Some r
       \<and> raised r = None
       \<and> get_last_forwarded_id (config_after r) = 50
       \<and> set [43, 44, 50] \<subseteq> set (delivered ''@g1'' (trace r))
       \<and> set [43, 44, 50] \<subseteq> set (delivered ''@g3'' (trace r))
       \<and> delivered ''@g2'' (trace r) = []"
proof -
  have src: "entities example_client (dict_get (cfg_source_channel demo_config) ''@somechannel'')"
    by (simp add: example_client_def demo_config_def dict_get_def)
  have mode: "dict_get (cfg_forward_mode demo_config) ''new'' = ''new''"
    by (simp add: demo_config_def dict_get_def)
  have ne: "[mk_message 43 34000, mk_message 44 35000, mk_message 50 36000] \<noteq> []"
    by simp
  from partial_failure_isolation [OF example_open src mode example_resolved ne]
  obtain r where r: "forward_messages_async example_client 36000 demo_config = Some r"
    and p: "raised r = None"
      "get_last_forwarded_id (config_after r)
         = Max (msg_id ` set [mk_message 43 34000, mk_message 44 35000, mk_message 50 36000])"
    and d: "\<forall>sg\<in>set (dict_get (cfg_supergroups demo_config) []).
              entities example_client sg
              \<and> (\<forall>n p. forward_result example_client n sg p = Sent)
              \<longrightarrow> set (map msg_id [mk_message 43 34000, mk_message 44 35000,
                                   mk_message 50 36000])
                    \<subseteq> set (delivered sg (trace r))"
    by blast
  have w: "get_last_forwarded_id (config_after r) = 50"
    using p(2) by (simp add: mk_message_def)
  have g1: "set [43, 44, 50] \<subseteq> set (delivered ''@g1'' (trace r))"
    using d by (simp add: demo_config_def dict_get_def example_client_def mk_message_def)
  have g3: "set [43, 44, 50] \<subseteq> set (delivered ''@g3'' (trace r))"
    using d by (simp add: demo_config_def dict_get_def example_client_def mk_message_def)
  have "r = deliver_and_record example_client demo_config ''new''
              [mk_message 43 34000, mk_message 44 35000, mk_message 50 36000]
              [GetEntity ''@src'' True, GetMessagesMin 100 42]"
    using r cycle_new_delivers [OF example_open src mode example_resolved ne]
    by (simp add: demo_config_def dict_get_def)
  then have g2: "delivered ''@g2'' (trace r) = []"
    by (simp add: deliver_and_record_simps demo_config_def dict_get_def example_client_def
        Let_def)
  from r p(1) w g1 g3 g2 show ?thesis by blast
qed

section \<open>Runs on the example inputs\<close>

lemma example_source:
  "entities example_client (dict_get (cfg_source_channel demo_config) ''@somechannel'')"
  by (simp add: example_client_def demo_config_def dict_get_def)

lemma example_mode: "dict_get (cfg_forward_mode demo_config) ''new'' = ''new''"
  by (simp add: demo_config_def dict_get_def)

lemma example_cycle:
  "forward_messages_async example_client 36000 demo_config
     = Some (deliver_and_record example_client demo_config ''new''
               [mk_message 43 34000, mk_message 44 35000, mk_message 50 36000]
               [GetEntity ''@src'' True, GetMessagesMin 100 42])"
proof -
  have ne: "[mk_message 43 34000, mk_message 44 35000, mk_message 50 36000] \<noteq> []"
    by simp
  from cycle_new_delivers [OF example_open example_source example_mode example_resolved ne]
  show ?thesis by (simp add: demo_config_def dict_get_def)
qed

theorem watermark_monotone_witness:
  "\<exists>r. forward_messages_async example_client 36000 demo_config = Some r
       \<and> get_last_forwarded_id demo_config = 42
       \<and> get_last_forwarded_id (config_after r) = 50
       \<and> get_last_forwarded_id demo_config \<le> get_last_forwarded_id (config_after r)
       \<and> sorted (map get_last_forwarded_id
                   (demo_config # map config_after
                      (run_cycles [(example_client, 36000), (example_client, 36060)]
                         demo_config)))"
proof -
  let ?r = "deliver_and_record example_client demo_config ''new''
               [mk_message 43 34000, mk_message 44 35000, mk_message 50 36000]
               [GetEntity ''@src'' True, GetMessagesMin 100 42]"
  have a: "get_last_forwarded_id demo_config = 42"
    by (simp add: get_last_forwarded_id_def demo_config_def dict_get_def)
  have b: "get_last_forwarded_id (config_after ?r) = 50"
    by (simp add: deliver_and_record_simps get_last_forwarded_id_def
        set_last_forwarded_id_def dict_get_def mk_message_def)
  from watermark_monotone [of example_client 36000 demo_config ?r
      "[(example_client, 36000), (example_client, 36060)]"] example_cycle
  have "get_last_forwarded_id demo_config \<le> get_last_forwarded_id (config_after ?r)"
    and "sorted (map get_last_forwarded_id
                   (demo_config # map config_after
                      (run_cycles [(example_client, 36000), (example_client, 36060)]
                         demo_config)))"
    by blast+
  with example_cycle a b show ?thesis by blast
qed

theorem source_unavailable_aborts_witness:
  "\<exists>r. forward_messages_async gone_client 36000 demo_config = Some r
       \<and> raised r = None \<and> config_after r = demo_config \<and> resolved r = []
       \<and> \<not> list_ex is_fetch (trace r) \<and> \<not> list_ex is_forward (trace r)
       \<and> run_cycles [(gone_client, 36000), (example_client, 36060)] demo_config
           = r # run_cycles [(example_client, 36060)] demo_config"
proof -
  have "\<not> entities gone_client (dict_get (cfg_source_channel demo_config) ''@somechannel'')"
    by (simp add: gone_client_def)
  from source_unavailable_aborts [OF this, of 36000 "[(example_client, 36060)]"]
  show ?thesis .
qed

section \<open>Incremental resolution\<close>

lemma five_ids:
  assumes "map msg_id xs = [a, b, c, d, e]"
  obtains ma mb mc md me where "xs = [ma, mb, mc, md, me]"
    and "msg_id ma = a" and "msg_id mb = b" and "msg_id mc = c"
    and "msg_id md = d" and "msg_id me = e"
  using assms by (auto simp add: map_eq_Cons_conv)

text \<open>
  C4. With the watermark at 42 and a source holding the ids 50, 44, 43, 41, 40 (newest
  first, dates offset-aware), a scheduled run in incremental mode that is admitted and
  resolves its source returns without an exception; the set it resolved holds exactly the
  three messages with the ids 43, 44 and 50, in ascending order of their timestamps; and
  the watermark it leaves is 50.
\<close>

theorem incremental_resolution_example:
  assumes "map msg_id (history c) = [50, 44, 43, 41, 40]"
    and "\<forall>m\<in>set (history c). tzinfo (msg_date m) \<noteq> None"
    and "time_window_open cfg t"
    and "entities c (dict_get (cfg_source_channel cfg) ''@somechannel'')"
    and "dict_get (cfg_forward_mode cfg) ''new'' = ''new''"
    and "get_last_forwarded_id cfg = 42"
  shows "\<exists>r. forward_messages_async c t cfg = Some r
           \<and> raised r = None
           \<and> set (map msg_id (resolved r)) = {43, 44, 50}
           \<and> length (resolved r) = 3
           \<and> sorted (map (\<lambda>m. instant (msg_date m)) (resolved r))
           \<and> get_last_forwarded_id (config_after r) = 50"
proof -
  from assms(1) obtain m50 m44 m43 m41 m40 where h: "history c = [m50, m44, m43, m41, m40]"
    and ids: "msg_id m50 = 50" "msg_id m44 = 44" "msg_id m43 = 43" "msg_id m41 = 41"
      "msg_id m40 = 40"
    by (rule five_ids)
  let ?key = "\<lambda>m. instant (msg_date m)"
  let ?ms = "sort_key ?key [m50, m44, m43]"
  have g: "get_messages_min c 100 (get_last_forwarded_id cfg) = [m50, m44, m43]"
    using h ids assms(6) by (simp add: get_messages_min_def)
  have res: "resolve_messages c t cfg ''new'' = Some (Inr ?ms, [GetMessagesMin 100 42])"
    using resolve_new_aware [OF assms(2), of t cfg] g assms(6) by simp
  have ne: "?ms \<noteq> []"
    by (metis length_sort list.size(3) length_Cons nat.distinct(1))
  let ?r = "deliver_and_record c cfg ''new'' ?ms
              (GetEntity (dict_get (cfg_source_channel cfg) ''@somechannel'') True
               # [GetMessagesMin 100 42])"
  have 1: "forward_messages_async c t cfg = Some ?r"
    by (rule cycle_new_delivers [OF assms(3,4,5) res ne])
  have s: "set ?ms = {m50, m44, m43}"
    by (simp only: set_sort) simp
  have 2: "set (map msg_id (resolved ?r)) = {43, 44, 50}"
    using ids by (simp only: deliver_and_record_simps set_map s) auto
  have 3: "length (resolved ?r) = 3"
    by (simp only: deliver_and_record_simps length_sort) simp
  have 4: "sorted (map ?key (resolved ?r))"
    by (simp only: deliver_and_record_simps sorted_sort_key)
  have "Max (msg_id ` set ?ms) = 50"
    using ids by (simp only: s) simp
  with ne have 5: "get_last_forwarded_id (config_after ?r) = 50"
    by (simp add: deliver_and_record_simps get_last_forwarded_id_def
        set_last_forwarded_id_def dict_get_def)
  have 6: "raised ?r = None"
    by (simp add: deliver_and_record_simps)
  from 1 2 3 4 5 6 show ?thesis by blast
qed

theorem incremental_resolution_example_witness:
  "\<exists>r. forward_messages_async example_client 36000 demo_config = Some r
       \<and> map msg_id (resolved r) = [43, 44, 50]
       \<and> raised r = None
       \<and> set (map msg_id (resolved r)) = {43, 44, 50}
       \<and> length (resolved r) = 3
       \<and> sorted (map (\<lambda>m. instant (msg_date m)) (resolved r))
       \<and> get_last_forwarded_id (config_after r) = 50"
proof -
  have h: "map msg_id (history example_client) = [50, 44, 43, 41, 40]"
    by (simp add: example_client_def mk_message_def)
  have a: "\<forall>m\<in>set (history example_client). tzinfo (msg_date m) \<noteq> None"
    by (simp add: example_client_def mk_message_def)
  have w: "get_last_forwarded_id demo_config = 42"
    by (simp add: get_last_forwarded_id_def demo_config_def dict_get_def)
  from incremental_resolution_example [OF h a example_open example_source example_mode w]
  obtain r where r: "forward_messages_async example_client 36000 demo_config = Some r"
    and p: "raised r = None" "set (map msg_id (resolved r)) = {43, 44, 50}"
      "length (resolved r) = 3" "sorted (map (\<lambda>m. instant (msg_date m)) (resolved r))"
      "get_last_forwarded_id (config_after r) = 50"
    by blast
  from r example_cycle have "map msg_id (resolved r) = [43, 44, 50]"
    by (auto simp add: deliver_and_record_simps mk_message_def)
  with r p show ?thesis by (intro exI [of _ r] conjI)
qed

section \<open>The page limit of the incremental fetch\<close>

lemma cycle_result_cases:
  assumes "forward_messages_async c t cfg = Some r"
  shows "(config_after r = cfg \<and> resolved r = [])
         \<or> (\<exists>ms evs. ms \<noteq> []
              \<and> resolve_messages c t cfg (dict_get (cfg_forward_mode cfg) ''new'')
                  = Some (Inr ms, evs)
              \<and> r = deliver_and_record c cfg (dict_get (cfg_forward_mode cfg) ''new'') ms
                      (GetEntity (dict_get (cfg_source_channel cfg) ''@somechannel'') True
                       # evs))"
proof (cases "time_window_open cfg t")
  case False
  with assms show ?thesis by (auto simp add: forward_messages_async_def)
next
  case op: True
  show ?thesis
  proof (cases "entities c (dict_get (cfg_source_channel cfg) ''@somechannel'')")
    case False
    with assms op show ?thesis by (auto simp add: cycle_unavailable)
  next
    case True
    note eq = cycle_resolved [OF op True]
    show ?thesis
    proof (cases "resolve_messages c t cfg (dict_get (cfg_forward_mode cfg) ''new'')")
      case None
      with assms eq show ?thesis by simp
    next
      case (Some p)
      obtain res evs where p: "p = (res, evs)" by (cases p)
      show ?thesis
      proof (cases res)
        case (Inl e)
        with assms eq Some p show ?thesis by auto
      next
        case (Inr ms)
        show ?thesis
        proof (cases "ms = []")
          case True
          with assms eq Some p Inr show ?thesis by auto
        next
          case False
          with assms eq Some p Inr show ?thesis by auto
        qed
      qed
    qed
  qed
qed

lemma cycle_mode_kept:
  assumes "forward_messages_async c t cfg = Some r"
  shows "cfg_forward_mode (config_after r) = cfg_forward_mode cfg"
  using cycle_config_after [OF assms] by (auto simp add: set_last_forwarded_id_def)

lemma cycle_resolved_above:
  assumes "forward_messages_async c t cfg = Some r"
    and "dict_get (cfg_forward_mode cfg) ''new'' = ''new''"
  shows "\<forall>m\<in>set (resolved r). get_last_forwarded_id cfg < msg_id m"
proof -
  from cycle_result_cases [OF assms(1)] show ?thesis
  proof
    assume "config_after r = cfg \<and> resolved r = []"
    then show ?thesis by simp
  next
    assume "\<exists>ms evs. ms \<noteq> []
              \<and> resolve_messages c t cfg (dict_get (cfg_forward_mode cfg) ''new'')
                  = Some (Inr ms, evs)
              \<and> r = deliver_and_record c cfg (dict_get (cfg_forward_mode cfg) ''new'') ms
                      (GetEntity (dict_get (cfg_source_channel cfg) ''@somechannel'') True
                       # evs)"
    then obtain ms evs where res: "resolve_messages c t cfg ''new'' = Some (Inr ms, evs)"
      and r: "resolved r = ms"
      using assms(2) by (auto simp add: deliver_and_record_simps)
    from resolve_new_above [OF res] r show ?thesis by blast
  qed
qed

lemma later_cycles_above:
  assumes "dict_get (cfg_forward_mode cfg) ''new'' = ''new''"
    and "w \<le> get_last_forwarded_id cfg"
  shows "\<forall>r\<in>set (run_cycles ticks cfg). \<forall>m\<in>set (resolved r). w < msg_id m"
  using assms
proof (induction ticks arbitrary: cfg)
  case Nil
  then show ?case by simp
next
  case (Cons tick ticks)
  obtain c t where tick: "tick = (c, t)" by (cases tick)
  show ?case
  proof (cases "forward_messages_async c t cfg")
    case None
    with tick show ?thesis by simp
  next
    case (Some r)
    have mode: "dict_get (cfg_forward_mode (config_after r)) ''new'' = ''new''"
      using cycle_mode_kept [OF Some] Cons.prems(1) by simp
    have le: "w \<le> get_last_forwarded_id (config_after r)"
      using watermark_step [OF Some] Cons.prems(2) by simp
    have here: "\<forall>m\<in>set (resolved r). w < msg_id m"
      using cycle_resolved_above [OF Some Cons.prems(1)] Cons.prems(2) by auto
    from Cons.IH [OF mode le] here tick Some show ?thesis by simp
  qed
qed

lemma sorted_wrt_take_drop:
  assumes "sorted_wrt P xs" and "x \<in> set (take n xs)" and "y \<in> set (drop n xs)"
  shows "P x y"
proof -
  from assms(1) have "sorted_wrt P (take n xs @ drop n xs)" by simp
  then have "\<forall>a\<in>set (take n xs). \<forall>b\<in>set (drop n xs). P a b"
    unfolding sorted_wrt_append by blast
  with assms(2,3) show ?thesis by blast
qed

text \<open>
  C10. In incremental mode a run fetches with \<^verbatim>\<open>limit=100, min_id=watermark\<close>. When the
  source (ids descending, newest first) holds more than 100 messages above the watermark,
  the run resolves exactly the 100 newest of them and stores the greatest id fetched; every
  older message above the old watermark is left out of this run, lies below the new
  watermark, and is in the resolved set of no later run, whatever the source and the clock
  then are.
\<close>

theorem fetch_cap_gap:
  assumes "sorted_wrt (\<lambda>a b. msg_id b < msg_id a) (history c)"
    and "\<forall>m\<in>set (history c). tzinfo (msg_date m) \<noteq> None"
    and "time_window_open cfg t"
    and "entities c (dict_get (cfg_source_channel cfg) ''@somechannel'')"
    and "dict_get (cfg_forward_mode cfg) ''new'' = ''new''"
    and "100 < length (filter (\<lambda>m. get_last_forwarded_id cfg < msg_id m) (history c))"
  shows "\<exists>r. forward_messages_async c t cfg = Some r
           \<and> raised r = None
           \<and> length (resolved r) = 100
           \<and> set (resolved r)
               = set (take 100 (filter (\<lambda>m. get_last_forwarded_id cfg < msg_id m) (history c)))
           \<and> get_last_forwarded_id (config_after r) = Max (msg_id ` set (resolved r))
           \<and> (\<forall>m\<in>set (drop 100
                          (filter (\<lambda>m. get_last_forwarded_id cfg < msg_id m) (history c))).
                 get_last_forwarded_id cfg < msg_id m
                 \<and> m \<notin> set (resolved r)
                 \<and> msg_id m < get_last_forwarded_id (config_after r)
                 \<and> (\<forall>ticks. \<forall>r'\<in>set (run_cycles ticks (config_after r)).
                       msg_id m \<notin> msg_id ` set (resolved r')))"
proof -
  let ?w = "get_last_forwarded_id cfg"
  let ?above = "filter (\<lambda>m. ?w < msg_id m) (history c)"
  let ?key = "\<lambda>m. instant (msg_date m)"
  let ?ms = "sort_key ?key (take 100 ?above)"
  let ?r = "deliver_and_record c cfg ''new'' ?ms
              (GetEntity (dict_get (cfg_source_channel cfg) ''@somechannel'') True
               # [GetMessagesMin 100 ?w])"
  have res: "resolve_messages c t cfg ''new'' = Some (Inr ?ms, [GetMessagesMin 100 ?w])"
    using resolve_new_aware [OF assms(2), of t cfg] by (simp add: get_messages_min_def)
  have len: "length ?ms = 100"
    using assms(6) by simp
  then have ne: "?ms \<noteq> []"
    by (metis list.size(3) zero_neq_numeral)
  have 1: "forward_messages_async c t cfg = Some ?r"
    by (rule cycle_new_delivers [OF assms(3,4,5) res ne])
  have rs: "resolved ?r = ?ms" and ra: "raised ?r = None"
    by (simp_all add: deliver_and_record_simps)
  have s: "set ?ms = set (take 100 ?above)"
    by (simp only: set_sort)
  have ca: "config_after ?r = set_last_forwarded_id cfg (Max (msg_id ` set ?ms))"
    using ne by (simp add: deliver_and_record_simps)
  then have wm: "get_last_forwarded_id (config_after ?r) = Max (msg_id ` set ?ms)"
    by (simp add: get_last_forwarded_id_def set_last_forwarded_id_def dict_get_def)
  have mode': "dict_get (cfg_forward_mode (config_after ?r)) ''new'' = ''new''"
    using ca assms(5) by (simp add: set_last_forwarded_id_def)
  have desc: "sorted_wrt (\<lambda>a b. msg_id b < msg_id a) ?above"
    by (rule sorted_wrt_filter [OF assms(1)])
  from ne s obtain x where x: "x \<in> set (take 100 ?above)"
    by (cases ?ms) (auto simp del: set_sort)
  have skipped: "get_last_forwarded_id cfg < msg_id m
                 \<and> m \<notin> set (resolved ?r)
                 \<and> msg_id m < get_last_forwarded_id (config_after ?r)
                 \<and> (\<forall>ticks. \<forall>r'\<in>set (run_cycles ticks (config_after ?r)).
                       msg_id m \<notin> msg_id ` set (resolved r'))"
    if m: "m \<in> set (drop 100 ?above)" for m
  proof -
    from m have "m \<in> set ?above" by (rule in_set_dropD)
    then have a: "?w < msg_id m" by simp
    have below: "msg_id m < msg_id y" if "y \<in> set (take 100 ?above)" for y
      by (rule sorted_wrt_take_drop [OF desc that m])
    have b: "m \<notin> set (resolved ?r)"
    proof
      assume "m \<in> set (resolved ?r)"
      with rs s have "m \<in> set (take 100 ?above)" by simp
      from below [OF this] show False by simp
    qed
    have "msg_id x \<le> Max (msg_id ` set ?ms)"
      using x s by simp
    with below [OF x] wm have c: "msg_id m < get_last_forwarded_id (config_after ?r)"
      by simp
    have d: "\<forall>ticks. \<forall>r'\<in>set (run_cycles ticks (config_after ?r)).
               msg_id m \<notin> msg_id ` set (resolved r')"
    proof (intro allI ballI notI)
      fix ticks r'
      assume r': "r' \<in> set (run_cycles ticks (config_after ?r))"
        and "msg_id m \<in> msg_id ` set (resolved r')"
      then obtain m' where m': "m' \<in> set (resolved r')" and e: "msg_id m' = msg_id m"
        by auto
      from later_cycles_above [OF mode' order_refl, of ticks] r' m'
      have "get_last_forwarded_id (config_after ?r) < msg_id m'" by blast
      with c e show False by simp
    qed
    from a b c d show ?thesis by blast
  qed
  have 3: "length (resolved ?r) = 100" using rs len by simp
  have 4: "set (resolved ?r) = set (take 100 ?above)" using rs s by simp
  have 5: "get_last_forwarded_id (config_after ?r) = Max (msg_id ` set (resolved ?r))"
    using wm rs by simp
  have 6: "\<forall>m\<in>set (drop 100 ?above).
             get_last_forwarded_id cfg < msg_id m
             \<and> m \<notin> set (resolved ?r)
             \<and> msg_id m < get_last_forwarded_id (config_after ?r)
             \<and> (\<forall>ticks. \<forall>r'\<in>set (run_cycles ticks (config_after ?r)).
                   msg_id m \<notin> msg_id ` set (resolved r'))"
    using skipped by blast
  show ?thesis
    by (rule exI [of _ ?r]) (intro conjI 1 ra 3 4 5 6)
qed

lemma long_history_above:
  "filter (\<lambda>m. get_last_forwarded_id fresh_config < msg_id m) (history long_client)
     = history long_client"
  by (simp add: long_client_def fresh_config_def get_last_forwarded_id_def dict_get_def
      mk_message_def)

lemma long_history_oldest: "drop 100 (history long_client) = [mk_message 1 1]"
proof -
  have "take (Suc 0) [1..101] = [1::int]"
    by (subst upto.simps) simp
  then show ?thesis
    by (simp add: long_client_def drop_map drop_rev)
qed

theorem fetch_cap_gap_witness:
  "\<exists>r. forward_messages_async long_client 36000 fresh_config = Some r
       \<and> raised r = None
       \<and> length (resolved r) = 100
       \<and> 0 < msg_id (mk_message 1 1)
       \<and> mk_message 1 1 \<notin> set (resolved r)
       \<and> msg_id (mk_message 1 1) < get_last_forwarded_id (config_after r)
       \<and> list_all (\<lambda>r'. msg_id (mk_message 1 1) \<notin> msg_id ` set (resolved r'))
           (run_cycles [(long_client, 36060), (long_client, 36120)] (config_after r))"
proof -
  have h1: "sorted_wrt (\<lambda>a b. msg_id b < msg_id a) (history long_client)"
    by (simp add: long_client_def sorted_wrt_map sorted_wrt_rev mk_message_def)
  have h2: "\<forall>m\<in>set (history long_client). tzinfo (msg_date m) \<noteq> None"
    by (simp add: long_client_def mk_message_def)
  have h3: "time_window_open fresh_config 36000"
    by (simp add: time_window_open_def fresh_config_def demo_config_def dict_get_def Let_def
        hour_def datetime_now_def utc_def)
  have h4: "entities long_client (dict_get (cfg_source_channel fresh_config) ''@somechannel'')"
    by (simp add: long_client_def example_client_def fresh_config_def demo_config_def
        dict_get_def)
  have h5: "dict_get (cfg_forward_mode fresh_config) ''new'' = ''new''"
    by (simp add: fresh_config_def demo_config_def dict_get_def)
  have h6: "100 < length (filter (\<lambda>m. get_last_forwarded_id fresh_config < msg_id m)
                            (history long_client))"
    unfolding long_history_above by (simp add: long_client_def)
  have w: "get_last_forwarded_id fresh_config = 0"
    by (simp add: fresh_config_def get_last_forwarded_id_def dict_get_def)
  from fetch_cap_gap [OF h1 h2 h3 h4 h5 h6]
  obtain r where r: "forward_messages_async long_client 36000 fresh_config = Some r"
    and p: "raised r = None" "length (resolved r) = 100"
    and q: "\<forall>m\<in>set (drop 100
                (filter (\<lambda>m. get_last_forwarded_id fresh_config < msg_id m)
                   (history long_client))).
              get_last_forwarded_id fresh_config < msg_id m
              \<and> m \<notin> set (resolved r)
              \<and> msg_id m < get_last_forwarded_id (config_after r)
              \<and> (\<forall>ticks. \<forall>r'\<in>set (run_cycles ticks (config_after r)).
                    msg_id m \<notin> msg_id ` set (resolved r'))"
    by blast
  from q have "get_last_forwarded_id fresh_config < msg_id (mk_message 1 1)
              \<and> mk_message 1 1 \<notin> set (resolved r)
              \<and> msg_id (mk_message 1 1) < get_last_forwarded_id (config_after r)
              \<and> (\<forall>ticks. \<forall>r'\<in>set (run_cycles ticks (config_after r)).
                    msg_id (mk_message 1 1) \<notin> msg_id ` set (resolved r'))"
    unfolding long_history_above long_history_oldest by simp
  then have a: "get_last_forwarded_id fresh_config < msg_id (mk_message 1 1)"
    and b: "mk_message 1 1 \<notin> set (resolved r)"
    and c: "msg_id (mk_message 1 1) < get_last_forwarded_id (config_after r)"
    and d: "\<forall>r'\<in>set (run_cycles [(long_client, 36060), (long_client, 36120)]
                       (config_after r)).
              msg_id (mk_message 1 1) \<notin> msg_id ` set (resolved r')"
    by blast+
  from d have e: "list_all (\<lambda>r'. msg_id (mk_message 1 1) \<notin> msg_id ` set (resolved r'))
           (run_cycles [(long_client, 36060), (long_client, 36120)] (config_after r))"
    by (simp only: list_all_iff)
  from a w have a': "0 < msg_id (mk_message 1 1)" by simp
  from r p a' b c e show ?thesis
    by (intro exI [of _ r] conjI)
qed

section \<open>The paging loops return\<close>

text \<open>
  Telegram numbers the messages of a channel from 1. Each page then ends on an id that is
  positive and below the offset it was asked with, so the messages left below the offset
  get fewer with every page.
\<close>

lemma length_filter_mono_strict:
  assumes "\<And>x. P x \<Longrightarrow> Q x" and "x \<in> set xs" and "Q x" and "\<not> P x"
  shows "length (filter P xs) < length (filter Q xs)"
proof -
  have "filter P (filter Q xs) = filter P xs"
    using assms(1) by (induction xs) auto
  moreover from assms have "length (filter P (filter Q xs)) < length (filter Q xs)"
    by (intro length_filter_less [of x]) simp_all
  ultimately show ?thesis by simp
qed

lemma next_page_smaller:
  assumes pos: "\<forall>m\<in>set (history c). 0 < msg_id m"
    and ne: "get_messages_offset c 100 off \<noteq> []"
  shows "length (filter (\<lambda>m. msg_id m < msg_id (last (get_messages_offset c 100 off)))
                        (history c))
         < (if off = 0 then Suc (length (history c))
            else length (filter (\<lambda>m. msg_id m < off) (history c)))"
    and "msg_id (last (get_messages_offset c 100 off)) \<noteq> 0"
proof -
  let ?chunk = "get_messages_offset c 100 off"
  let ?l = "last ?chunk"
  from ne have "?l \<in> set ?chunk" by (rule last_in_set)
  then have "?l \<in> set (filter (\<lambda>m. off = 0 \<or> msg_id m < off) (history c))"
    unfolding get_messages_offset_def by (rule in_set_takeD)
  then have h: "?l \<in> set (history c)" and o: "off = 0 \<or> msg_id ?l < off" by simp_all
  from pos h have p: "0 < msg_id ?l" by (rule bspec)
  then show "msg_id ?l \<noteq> 0" by simp
  show "length (filter (\<lambda>m. msg_id m < msg_id ?l) (history c))
         < (if off = 0 then Suc (length (history c))
            else length (filter (\<lambda>m. msg_id m < off) (history c)))"
  proof (cases "off = 0")
    case True
    have "length (filter (\<lambda>m. msg_id m < msg_id ?l) (history c)) \<le> length (history c)"
      by (rule length_filter_le)
    then have "length (filter (\<lambda>m. msg_id m < msg_id ?l) (history c))
                 < Suc (length (history c))"
      by (simp only: less_Suc_eq_le)
    with True show ?thesis by simp
  next
    case False
    with o have lt: "msg_id ?l < off" by simp
    have "length (filter (\<lambda>m. msg_id m < msg_id ?l) (history c))
            < length (filter (\<lambda>m. msg_id m < off) (history c))"
    proof (rule length_filter_mono_strict [of _ _ ?l])
      fix x :: message
      assume "msg_id x < msg_id ?l"
      with lt show "msg_id x < off" by simp
    next
      show "?l \<in> set (history c)" by (rule h)
      show "msg_id ?l < off" by (rule lt)
      show "\<not> msg_id ?l < msg_id ?l" by simp
    qed
    with False show ?thesis by simp
  qed
qed

lemma fetch_today_loop_returns:
  assumes pos: "\<forall>m\<in>set (history c). 0 < msg_id m"
  shows "\<exists>y. fetch_today_loop c d off msgs evs = Some y"
proof (induction "if off = 0 then Suc (length (history c))
                  else length (filter (\<lambda>m. msg_id m < off) (history c))"
    arbitrary: off msgs evs rule: less_induct)
  case less
  let ?chunk = "get_messages_offset c 100 off"
  let ?off' = "msg_id (last ?chunk)"
  show ?case
  proof (cases "?chunk = []")
    case True
    then show ?thesis by (subst fetch_today_loop.simps) (simp add: Let_def)
  next
    case False
    note page = next_page_smaller [OF pos False]
    show ?thesis
    proof (cases "before_day_start (msg_date (last ?chunk)) d")
      case True
      with False show ?thesis by (subst fetch_today_loop.simps) (simp add: Let_def)
    next
      case older: False
      from page have "(if ?off' = 0 then Suc (length (history c))
                       else length (filter (\<lambda>m. msg_id m < ?off') (history c)))
                      < (if off = 0 then Suc (length (history c))
                         else length (filter (\<lambda>m. msg_id m < off) (history c)))"
        by simp
      from less [OF this]
      have "\<exists>y. fetch_today_loop c d ?off' (msgs @ scan_today d ?chunk)
                        (evs @ [GetMessagesOffset 100 off]) = Some y" .
      then obtain y where "fetch_today_loop c d ?off' (msgs @ scan_today d ?chunk)
                        (evs @ [GetMessagesOffset 100 off]) = Some y"
        by (elim exE)
      with False older show ?thesis
        by (subst fetch_today_loop.simps) (simp add: Let_def)
    qed
  qed
qed

lemma fetch_today_texts_returns:
  assumes "\<forall>m\<in>set (history c). 0 < msg_id m"
  shows "\<exists>msgs evs. fetch_today_texts c tz t = Some (msgs, evs)"
proof -
  from fetch_today_loop_returns [OF assms]
  have "\<exists>y. fetch_today_loop c (start_of_today tz t) 0 [] [] = Some y" .
  then obtain y where "fetch_today_loop c (start_of_today tz t) 0 [] [] = Some y"
    by (elim exE)
  then have "fetch_today_texts c tz t = Some (rev (fst y), snd y)"
    by (simp add: fetch_today_texts_def case_prod_beta)
  then show ?thesis by (intro exI)
qed

lemma fetch_all_today_loop_returns:
  assumes pos: "\<forall>m\<in>set (history c). 0 < msg_id m"
  shows "\<exists>y. fetch_all_today_loop c d off msgs evs = Some y"
proof (induction "if off = 0 then Suc (length (history c))
                  else length (filter (\<lambda>m. msg_id m < off) (history c))"
    arbitrary: off msgs evs rule: less_induct)
  case less
  let ?chunk = "get_messages_offset c 100 off"
  let ?off' = "msg_id (last ?chunk)"
  show ?case
  proof (cases "?chunk = []")
    case True
    then show ?thesis by (subst fetch_all_today_loop.simps) (simp add: Let_def)
  next
    case False
    note page = next_page_smaller [OF pos False]
    show ?thesis
    proof (cases "instant (msg_date_utc (last ?chunk)) < instant d")
      case True
      with False show ?thesis by (subst fetch_all_today_loop.simps) (simp add: Let_def)
    next
      case older: False
      from page have "(if ?off' = 0 then Suc (length (history c))
                       else length (filter (\<lambda>m. msg_id m < ?off') (history c)))
                      < (if off = 0 then Suc (length (history c))
                         else length (filter (\<lambda>m. msg_id m < off) (history c)))"
        by simp
      from less [OF this]
      have "\<exists>y. fetch_all_today_loop c d ?off' (msgs @ scan_all_today d ?chunk)
                        (evs @ [GetMessagesOffset 100 off]) = Some y" .
      then obtain y where "fetch_all_today_loop c d ?off' (msgs @ scan_all_today d ?chunk)
                        (evs @ [GetMessagesOffset 100 off]) = Some y"
        by (elim exE)
      with False older show ?thesis
        by (subst fetch_all_today_loop.simps) (simp add: Let_def)
    qed
  qed
qed

lemma fetch_all_today_messages_returns:
  assumes "\<forall>m\<in>set (history c). 0 < msg_id m"
  shows "\<exists>ms evs. fetch_all_today_messages c t = Some (ms, evs)"
proof -
  from fetch_all_today_loop_returns [OF assms]
  have "\<exists>y. fetch_all_today_loop c (start_of_today_aware t) 0 [] [] = Some y" .
  then obtain y where "fetch_all_today_loop c (start_of_today_aware t) 0 [] [] = Some y"
    by (elim exE)
  then have "fetch_all_today_messages c t = Some (rev (fst y), snd y)"
    by (simp add: fetch_all_today_messages_def case_prod_beta)
  then show ?thesis by (intro exI)
qed

section \<open>Full-day resolution\<close>

lemma get_messages_offset_zero: "get_messages_offset c l 0 = take l (history c)"
  by (simp add: get_messages_offset_def)

lemma get_messages_offset_subset: "set (get_messages_offset c l off) \<subseteq> set (history c)"
  by (auto simp add: get_messages_offset_def dest: in_set_takeD)

lemma fetch_today_single_page:
  assumes "get_messages_offset c 100 0 = chunk" and "chunk \<noteq> []"
    and "before_day_start (msg_date (last chunk)) d"
  shows "fetch_today_loop c d 0 [] [] = Some (scan_today d chunk, [GetMessagesOffset 100 0])"
  using assms by (subst fetch_today_loop.simps) (simp add: Let_def)

lemma fetch_all_today_single_page:
  assumes "get_messages_offset c 100 0 = chunk" and "chunk \<noteq> []"
    and "instant (msg_date_utc (last chunk)) < instant start"
  shows "fetch_all_today_loop c start 0 [] []
           = Some (scan_all_today start chunk, [GetMessagesOffset 100 0])"
  using assms by (subst fetch_all_today_loop.simps) (simp add: Let_def)

lemma instant_msg_date_utc: "instant (msg_date_utc m) = instant (msg_date m)"
  by (simp add: msg_date_utc_def astimezone_utc_def replace_tzinfo_def instant_def
      split: option.splits)

lemma text_message_of_text:
  assumes "has_text m" and "\<not> msg_media m"
  shows "\<exists>s. msg_text m = Some s \<and> s \<noteq> []
             \<and> text_message_of m
                 = [\<lparr>message_id = msg_id m, date = msg_date m, content = s, raw = Some m\<rparr>]"
  using assms by (auto simp add: has_text_def text_message_of_def split: option.splits)

lemma text_message_of_sound:
  assumes "tm \<in> set (text_message_of m)"
  shows "raw tm = Some m \<and> has_text m \<and> \<not> msg_media m \<and> content tm \<noteq> []"
proof (cases "msg_text m")
  case None
  with assms show ?thesis by (simp add: text_message_of_def)
next
  case (Some s)
  with assms show ?thesis
    by (cases "s \<noteq> [] \<and> \<not> msg_media m") (auto simp add: text_message_of_def has_text_def)
qed

lemma scan_today_sound:
  assumes "tm \<in> set (scan_today d chunk)"
  shows "\<exists>m\<in>set chunk. tm \<in> set (text_message_of m)"
  using assms by (induction chunk) (auto split: if_splits)


lemma paging_step:
  assumes "(let chunk = ch; evs' = E
            in if chunk = [] then Some (msgs, evs')
               else (let msgs' = msgs @ S chunk
                     in if B chunk then Some (msgs', evs') else L chunk msgs' evs')) = X"
  shows "(ch = [] \<and> X = Some (msgs, E))
         \<or> (ch \<noteq> [] \<and> B ch \<and> X = Some (msgs @ S ch, E))
         \<or> (ch \<noteq> [] \<and> \<not> B ch \<and> X = L ch (msgs @ S ch) E)"
proof (cases "ch = []")
  case True
  with assms show ?thesis by (simp add: Let_def)
next
  case False
  with assms show ?thesis by (cases "B ch") (simp_all add: Let_def)
qed

lemma fetch_today_loop_text_only:
  assumes "fetch_today_loop c d off msgs evs = Some y"
  shows "(\<forall>tm\<in>set msgs. \<exists>m\<in>set (history c). tm \<in> set (text_message_of m))
         \<longrightarrow> (\<forall>tm\<in>set (fst y). \<exists>m\<in>set (history c). tm \<in> set (text_message_of m))"
  using assms
proof (induct rule: fetch_today_loop.raw_induct [rotated 1, consumes 1, case_names step])
  case (step loop c d off msgs evs y)
  let ?chunk = "get_messages_offset c 100 off"
  let ?msgs' = "msgs @ scan_today d ?chunk"
  let ?evs' = "evs @ [GetMessagesOffset 100 off]"
  note cases = paging_step [OF step(2)]
  show ?case
  proof
    assume inv: "\<forall>tm\<in>set msgs. \<exists>m\<in>set (history c). tm \<in> set (text_message_of m)"
    have inv': "\<forall>tm\<in>set ?msgs'. \<exists>m\<in>set (history c). tm \<in> set (text_message_of m)"
    proof
      fix tm
      assume "tm \<in> set ?msgs'"
      then consider "tm \<in> set msgs" | "tm \<in> set (scan_today d ?chunk)"
        by auto
      then show "\<exists>m\<in>set (history c). tm \<in> set (text_message_of m)"
      proof cases
        case 1
        with inv show ?thesis by blast
      next
        case 2
        from scan_today_sound [OF 2] obtain m
          where "m \<in> set ?chunk" and "tm \<in> set (text_message_of m)"
          by blast
        with get_messages_offset_subset [of c 100 off] show ?thesis by blast
      qed
    qed
    from cases consider "Some y = Some (msgs, ?evs')" | "Some y = Some (?msgs', ?evs')"
      | "loop c d (msg_id (last ?chunk)) ?msgs' ?evs' = Some y"
      by metis
    then show "\<forall>tm\<in>set (fst y). \<exists>m\<in>set (history c). tm \<in> set (text_message_of m)"
    proof cases
      case 1
      then have "fst y = msgs" by simp
      with inv show ?thesis by simp
    next
      case 2
      then have "fst y = ?msgs'" by simp
      with inv' show ?thesis by simp
    next
      case 3
      from step(1) [OF 3] inv' show ?thesis by (rule mp)
    qed
  qed
qed

lemma fetch_today_texts_text_only:
  assumes "fetch_today_texts c tz t = Some (msgs, evs)"
  shows "\<forall>tm\<in>set msgs. \<exists>m\<in>set (history c).
           raw tm = Some m \<and> has_text m \<and> \<not> msg_media m \<and> content tm \<noteq> []"
proof -
  from assms obtain y where y: "fetch_today_loop c (start_of_today tz t) 0 [] [] = Some y"
    and m: "msgs = rev (fst y)"
    by (auto simp add: fetch_today_texts_def case_prod_beta)
  from fetch_today_loop_text_only [OF y] m
  have *: "\<forall>tm\<in>set msgs. \<exists>m\<in>set (history c). tm \<in> set (text_message_of m)" by simp
  show ?thesis
  proof
    fix tm
    assume "tm \<in> set msgs"
    with * obtain m where m: "m \<in> set (history c)" and "tm \<in> set (text_message_of m)"
      by blast
    from text_message_of_sound [OF this(2)] m
    show "\<exists>m\<in>set (history c).
            raw tm = Some m \<and> has_text m \<and> \<not> msg_media m \<and> content tm \<noteq> []"
      by blast
  qed
qed

lemma last_in_older:
  assumes "\<forall>m\<in>set older. P m" and "P m1"
  shows "P (last (m3 # m2 # m1 # take n older))"
proof (cases "take n older = []")
  case True
  with assms(2) show ?thesis by simp
next
  case False
  then have "last (take n older) \<in> set (take n older)" by (rule last_in_set)
  then have "last (take n older) \<in> set older" by (rule in_set_takeD)
  with assms(1) False show ?thesis by simp
qed

lemma fetch_today_example:
  assumes h: "history c = m3 # m2 # m1 # older"
    and d3: "wall (msg_date m3) = wall (start_of_today tz t) + 36000"
    and d2: "wall (msg_date m2) = wall (start_of_today tz t) + 60"
    and d1: "wall (msg_date m1) = wall (start_of_today tz t) - 600"
    and old: "\<forall>m\<in>set older. wall (msg_date m) \<le> wall (msg_date m1)"
    and t3: "has_text m3 \<and> \<not> msg_media m3" and t2: "has_text m2 \<and> \<not> msg_media m2"
  shows "\<exists>msgs. fetch_today_texts c tz t = Some (msgs, [GetMessagesOffset 100 0])
           \<and> map raw msgs = [Some m2, Some m3]
           \<and> map message_id msgs = [msg_id m2, msg_id m3]
           \<and> map date msgs = [msg_date m2, msg_date m3]
           \<and> map (\<lambda>tm. Some (content tm)) msgs = [msg_text m2, msg_text m3]"
proof -
  let ?d = "start_of_today tz t"
  let ?chunk = "m3 # m2 # m1 # take 97 older"
  have chunk: "get_messages_offset c 100 0 = ?chunk"
    using h by (simp add: get_messages_offset_zero)
  have b1: "before_day_start (msg_date m1) ?d"
    using d1 by (simp add: before_day_start_def replace_tzinfo_def)
  have b2: "\<not> before_day_start (msg_date m2) ?d"
    using d2 by (simp add: before_day_start_def replace_tzinfo_def)
  have b3: "\<not> before_day_start (msg_date m3) ?d"
    using d3 by (simp add: before_day_start_def replace_tzinfo_def)
  have "\<forall>m\<in>set older. before_day_start (msg_date m) ?d"
    using old d1 by (auto simp add: before_day_start_def replace_tzinfo_def)
  then have bl: "before_day_start (msg_date (last ?chunk)) ?d"
    using b1 by (rule last_in_older)
  have scan: "scan_today ?d ?chunk = text_message_of m3 @ text_message_of m2"
    using b1 b2 b3 by simp
  have "fetch_today_loop c ?d 0 [] [] = Some (scan_today ?d ?chunk, [GetMessagesOffset 100 0])"
    by (rule fetch_today_single_page [OF chunk _ bl]) simp
  then have f: "fetch_today_texts c tz t
                  = Some (rev (text_message_of m3 @ text_message_of m2),
                          [GetMessagesOffset 100 0])"
    by (simp only: fetch_today_texts_def scan) simp
  from text_message_of_text [of m3] t3 obtain s3 where s3: "msg_text m3 = Some s3"
    "text_message_of m3
       = [\<lparr>message_id = msg_id m3, date = msg_date m3, content = s3, raw = Some m3\<rparr>]"
    by blast
  from text_message_of_text [of m2] t2 obtain s2 where s2: "msg_text m2 = Some s2"
    "text_message_of m2
       = [\<lparr>message_id = msg_id m2, date = msg_date m2, content = s2, raw = Some m2\<rparr>]"
    by blast
  show ?thesis
    unfolding f by (simp add: s2 s3)
qed

lemma fetch_all_today_example:
  assumes h: "history c = m3 # m2 # m1 # older"
    and d3: "instant (msg_date m3) = instant (start_of_today_aware t) + 36000"
    and d2: "instant (msg_date m2) = instant (start_of_today_aware t) + 60"
    and d1: "instant (msg_date m1) = instant (start_of_today_aware t) - 600"
    and old: "\<forall>m\<in>set older. instant (msg_date m) \<le> instant (msg_date m1)"
  shows "fetch_all_today_messages c t = Some ([m2, m3], [GetMessagesOffset 100 0])"
proof -
  let ?d = "start_of_today_aware t"
  let ?chunk = "m3 # m2 # m1 # take 97 older"
  have chunk: "get_messages_offset c 100 0 = ?chunk"
    using h by (simp add: get_messages_offset_zero)
  have b1: "instant (msg_date_utc m1) < instant ?d"
    using d1 by (simp add: instant_msg_date_utc)
  have "\<forall>m\<in>set older. instant (msg_date_utc m) < instant ?d"
    using old d1 by (auto simp add: instant_msg_date_utc)
  then have bl: "instant (msg_date_utc (last ?chunk)) < instant ?d"
    using b1 by (rule last_in_older)
  have scan: "scan_all_today ?d ?chunk = [m3, m2]"
    using d1 d2 d3 by (simp add: instant_msg_date_utc)
  have "fetch_all_today_loop c ?d 0 [] []
          = Some (scan_all_today ?d ?chunk, [GetMessagesOffset 100 0])"
    by (rule fetch_all_today_single_page [OF chunk _ bl]) simp
  then show ?thesis
    by (simp only: fetch_all_today_messages_def scan) simp
qed

text \<open>
  C3 (as amended). \<^verbatim>\<open>fetch_today_texts\<close>: for a source whose newest messages are dated
  10:00 today, 00:01 today and 23:50 yesterday (dates expressed in the configured zone,
  today starting at that zone's midnight), followed by older messages only, the resolved
  set is exactly the 00:01 and the 10:00 message, in that order, when both are plain text;
  and whatever the source holds, its ids being positive, the fetch returns and every
  message resolved has non-empty text and no media.
  \<^verbatim>\<open>fetch_all_today_messages\<close>: for the same three dates taken as instants against
  midnight UTC, the resolved set is the 00:01 and the 10:00 message in that order; this
  fetch applies no filter on content.
\<close>

theorem full_day_resolution:
  "(history c = m3 # m2 # m1 # older
      \<and> msg_date m3 = \<lparr>wall = wall (start_of_today tz t) + 36000, tzinfo = Some (tz t)\<rparr>
      \<and> msg_date m2 = \<lparr>wall = wall (start_of_today tz t) + 60, tzinfo = Some (tz t)\<rparr>
      \<and> msg_date m1 = \<lparr>wall = wall (start_of_today tz t) - 600, tzinfo = Some (tz t)\<rparr>
      \<and> (\<forall>m\<in>set older. wall (msg_date m) \<le> wall (msg_date m1))
      \<and> has_text m3 \<and> \<not> msg_media m3 \<and> has_text m2 \<and> \<not> msg_media m2
    \<longrightarrow> (\<exists>msgs. fetch_today_texts c tz t = Some (msgs, [GetMessagesOffset 100 0])
           \<and> map raw msgs = [Some m2, Some m3]
           \<and> map message_id msgs = [msg_id m2, msg_id m3]
           \<and> map date msgs = [msg_date m2, msg_date m3]
           \<and> map (\<lambda>tm. Some (content tm)) msgs = [msg_text m2, msg_text m3]))
   \<and> ((\<forall>m\<in>set (history c). 0 < msg_id m)
        \<longrightarrow> (\<exists>msgs evs. fetch_today_texts c tz t = Some (msgs, evs)
              \<and> (\<forall>tm\<in>set msgs. \<exists>m\<in>set (history c).
                    raw tm = Some m \<and> has_text m \<and> \<not> msg_media m \<and> content tm \<noteq> [])))
   \<and> (history c = m3 # m2 # m1 # older
        \<and> instant (msg_date m3) = instant (start_of_today_aware t) + 36000
        \<and> instant (msg_date m2) = instant (start_of_today_aware t) + 60
        \<and> instant (msg_date m1) = instant (start_of_today_aware t) - 600
        \<and> (\<forall>m\<in>set older. instant (msg_date m) \<le> instant (msg_date m1))
      \<longrightarrow> fetch_all_today_messages c t = Some ([m2, m3], [GetMessagesOffset 100 0]))"
proof (intro conjI impI)
  assume a: "history c = m3 # m2 # m1 # older
      \<and> msg_date m3 = \<lparr>wall = wall (start_of_today tz t) + 36000, tzinfo = Some (tz t)\<rparr>
      \<and> msg_date m2 = \<lparr>wall = wall (start_of_today tz t) + 60, tzinfo = Some (tz t)\<rparr>
      \<and> msg_date m1 = \<lparr>wall = wall (start_of_today tz t) - 600, tzinfo = Some (tz t)\<rparr>
      \<and> (\<forall>m\<in>set older. wall (msg_date m) \<le> wall (msg_date m1))
      \<and> has_text m3 \<and> \<not> msg_media m3 \<and> has_text m2 \<and> \<not> msg_media m2"
  show "\<exists>msgs. fetch_today_texts c tz t = Some (msgs, [GetMessagesOffset 100 0])
           \<and> map raw msgs = [Some m2, Some m3]
           \<and> map message_id msgs = [msg_id m2, msg_id m3]
           \<and> map date msgs = [msg_date m2, msg_date m3]
           \<and> map (\<lambda>tm. Some (content tm)) msgs = [msg_text m2, msg_text m3]"
  proof (rule fetch_today_example [of c m3 m2 m1 older tz t])
    show "history c = m3 # m2 # m1 # older" using a by blast
    show "wall (msg_date m3) = wall (start_of_today tz t) + 36000" using a by simp
    show "wall (msg_date m2) = wall (start_of_today tz t) + 60" using a by simp
    show "wall (msg_date m1) = wall (start_of_today tz t) - 600" using a by simp
    show "\<forall>m\<in>set older. wall (msg_date m) \<le> wall (msg_date m1)" using a by blast
    show "has_text m3 \<and> \<not> msg_media m3" using a by blast
    show "has_text m2 \<and> \<not> msg_media m2" using a by blast
  qed
next
  assume "\<forall>m\<in>set (history c). 0 < msg_id m"
  then have "\<exists>msgs evs. fetch_today_texts c tz t = Some (msgs, evs)"
    by (rule fetch_today_texts_returns)
  then obtain msgs evs where f: "fetch_today_texts c tz t = Some (msgs, evs)"
    by (elim exE)
  then have "\<forall>tm\<in>set msgs. \<exists>m\<in>set (history c).
               raw tm = Some m \<and> has_text m \<and> \<not> msg_media m \<and> content tm \<noteq> []"
    by (rule fetch_today_texts_text_only)
  with f show "\<exists>msgs evs. fetch_today_texts c tz t = Some (msgs, evs)
              \<and> (\<forall>tm\<in>set msgs. \<exists>m\<in>set (history c).
                    raw tm = Some m \<and> has_text m \<and> \<not> msg_media m \<and> content tm \<noteq> [])"
    by (intro exI [of _ msgs] exI [of _ evs] conjI)
next
  assume a: "history c = m3 # m2 # m1 # older
        \<and> instant (msg_date m3) = instant (start_of_today_aware t) + 36000
        \<and> instant (msg_date m2) = instant (start_of_today_aware t) + 60
        \<and> instant (msg_date m1) = instant (start_of_today_aware t) - 600
        \<and> (\<forall>m\<in>set older. instant (msg_date m) \<le> instant (msg_date m1))"
  show "fetch_all_today_messages c t = Some ([m2, m3], [GetMessagesOffset 100 0])"
  proof (rule fetch_all_today_example [of c m3 m2 m1 older t])
    show "history c = m3 # m2 # m1 # older" using a by blast
    show "instant (msg_date m3) = instant (start_of_today_aware t) + 36000" using a by blast
    show "instant (msg_date m2) = instant (start_of_today_aware t) + 60" using a by blast
    show "instant (msg_date m1) = instant (start_of_today_aware t) - 600" using a by blast
    show "\<forall>m\<in>set older. instant (msg_date m) \<le> instant (msg_date m1)" using a by blast
  qed
qed

theorem legacy_fetch_keeps_media_counterexample:
  "fetch_all_today_messages photo_client 36000
     = Some ([photo_message], [GetMessagesOffset 100 0, GetMessagesOffset 100 7])
   \<and> \<not> has_text photo_message"
proof -
  have start: "start_of_today_aware 36000 = \<lparr>wall = 0, tzinfo = Some 0\<rparr>"
    by (simp add: start_of_today_aware_def replace_midnight_def datetime_now_def utc_def)
  have p1: "get_messages_offset photo_client 100 0 = [photo_message]"
    by (simp add: get_messages_offset_def photo_client_def)
  have p2: "get_messages_offset photo_client 100 7 = []"
    by (simp add: get_messages_offset_def photo_client_def photo_message_def)
  have i: "instant (msg_date_utc photo_message) = 30000"
    unfolding instant_msg_date_utc by (simp add: photo_message_def instant_def)
  have z: "instant \<lparr>wall = 0, tzinfo = Some 0\<rparr> = 0"
    by (simp add: instant_def)
  have id: "msg_id photo_message = 7"
    by (simp add: photo_message_def)
  have second: "fetch_all_today_loop photo_client \<lparr>wall = 0, tzinfo = Some 0\<rparr> 7
                  [photo_message] [GetMessagesOffset 100 0]
                = Some ([photo_message], [GetMessagesOffset 100 0, GetMessagesOffset 100 7])"
    by (subst fetch_all_today_loop.simps) (simp add: p2 Let_def)
  have first: "fetch_all_today_loop photo_client \<lparr>wall = 0, tzinfo = Some 0\<rparr> 0 [] []
                = Some ([photo_message], [GetMessagesOffset 100 0, GetMessagesOffset 100 7])"
    by (subst fetch_all_today_loop.simps) (simp add: p1 Let_def i z id second)
  have "\<not> has_text photo_message"
    by (simp add: has_text_def photo_message_def)
  with first start show ?thesis
    by (simp add: fetch_all_today_messages_def)
qed

section \<open>Worked full-day fetches\<close>

lemma tehran_offset: "tehran t = 12600"
  by (simp add: tehran_def)

lemma tehran_midnight: "start_of_today tehran 36000 = \<lparr>wall = 0, tzinfo = Some 12600\<rparr>"
  by (simp add: start_of_today_def replace_midnight_def datetime_now_def tehran_def)

lemma day_client_fetch:
  "fetch_today_texts day_client tehran 36000 = Some (day_messages, [GetMessagesOffset 100 0])"
proof -
  let ?d = "\<lparr>wall = 0, tzinfo = Some 12600\<rparr>"
  let ?chunk = "[zoned_message 3 36000 12600, zoned_message 2 60 12600,
                 zoned_message 1 (- 600) 12600]"
  have chunk: "get_messages_offset day_client 100 0 = ?chunk"
    by (simp add: get_messages_offset_zero day_client_def)
  have "fetch_today_loop day_client ?d 0 [] []
          = Some (scan_today ?d ?chunk, [GetMessagesOffset 100 0])"
    by (rule fetch_today_single_page [OF chunk])
      (simp_all add: before_day_start_def replace_tzinfo_def zoned_message_def)
  moreover have "scan_today ?d ?chunk = rev day_messages"
    by (simp add: before_day_start_def replace_tzinfo_def zoned_message_def
        text_message_of_def day_messages_def)
  ultimately show ?thesis
    by (simp add: fetch_today_texts_def tehran_midnight)
qed

text \<open>
  A message dated in UTC, as Telethon dates them, one minute after midnight of the
  configured zone (\<open>-12540 = 60 - 12600\<close>): its wall-clock reading is below that of local
  midnight, so the fetch leaves it out, although its instant is later than local midnight.
\<close>

lemma utc_dated_message_left_out:
  "fetch_today_texts utc_dated_client tehran 36000 = Some ([], [GetMessagesOffset 100 0])
   \<and> instant (start_of_today tehran 36000)
       < instant (msg_date (zoned_message 2 (- 12540) 0))"
proof -
  let ?d = "\<lparr>wall = 0, tzinfo = Some 12600\<rparr>"
  let ?chunk = "[zoned_message 2 (- 12540) 0]"
  have chunk: "get_messages_offset utc_dated_client 100 0 = ?chunk"
    by (simp add: get_messages_offset_zero utc_dated_client_def)
  have "fetch_today_loop utc_dated_client ?d 0 [] []
          = Some (scan_today ?d ?chunk, [GetMessagesOffset 100 0])"
    by (rule fetch_today_single_page [OF chunk])
      (simp_all add: before_day_start_def replace_tzinfo_def zoned_message_def)
  moreover have "scan_today ?d ?chunk = []"
    by (simp add: before_day_start_def replace_tzinfo_def zoned_message_def)
  ultimately have "fetch_today_texts utc_dated_client tehran 36000
                     = Some ([], [GetMessagesOffset 100 0])"
    by (simp add: fetch_today_texts_def tehran_midnight)
  moreover have "instant (start_of_today tehran 36000)
                   < instant (msg_date (zoned_message 2 (- 12540) 0))"
    by (simp add: tehran_midnight instant_def zoned_message_def)
  ultimately show ?thesis by blast
qed

lemma day_client_dates: "msg_date (zoned_message 3 36000 12600)
              = \<lparr>wall = wall (start_of_today tehran 36000) + 36000,
                 tzinfo = Some (tehran 36000)\<rparr>"
    "msg_date (zoned_message 2 60 12600)
       = \<lparr>wall = wall (start_of_today tehran 36000) + 60, tzinfo = Some (tehran 36000)\<rparr>"
    "msg_date (zoned_message 1 (- 600) 12600)
       = \<lparr>wall = wall (start_of_today tehran 36000) - 600, tzinfo = Some (tehran 36000)\<rparr>"
    by (simp_all add: tehran_midnight zoned_message_def tehran_offset)

lemma day_client_texts: "has_text (zoned_message 3 36000 12600)" "\<not> msg_media (zoned_message 3 36000 12600)"
    "has_text (zoned_message 2 60 12600)" "\<not> msg_media (zoned_message 2 60 12600)"
    by (simp_all add: has_text_def zoned_message_def)

lemma day_client_example: "history day_client
               = zoned_message 3 36000 12600 # zoned_message 2 60 12600
                 # zoned_message 1 (- 600) 12600 # []
      \<and> msg_date (zoned_message 3 36000 12600)
          = \<lparr>wall = wall (start_of_today tehran 36000) + 36000, tzinfo = Some (tehran 36000)\<rparr>
      \<and> msg_date (zoned_message 2 60 12600)
          = \<lparr>wall = wall (start_of_today tehran 36000) + 60, tzinfo = Some (tehran 36000)\<rparr>
      \<and> msg_date (zoned_message 1 (- 600) 12600)
          = \<lparr>wall = wall (start_of_today tehran 36000) - 600, tzinfo = Some (tehran 36000)\<rparr>
      \<and> (\<forall>m\<in>set []. wall (msg_date m) \<le> wall (msg_date (zoned_message 1 (- 600) 12600)))
      \<and> has_text (zoned_message 3 36000 12600) \<and> \<not> msg_media (zoned_message 3 36000 12600)
      \<and> has_text (zoned_message 2 60 12600) \<and> \<not> msg_media (zoned_message 2 60 12600)"
proof -
  have h1: "history day_client
              = [zoned_message 3 36000 12600, zoned_message 2 60 12600,
                 zoned_message 1 (- 600) 12600]"
    by (simp add: day_client_def)
  have e: "\<forall>m\<in>set []. wall (msg_date m) \<le> wall (msg_date (zoned_message 1 (- 600) 12600))"
    by simp
  show ?thesis
    by (intro conjI h1 day_client_dates e day_client_texts)
qed

theorem full_day_resolution_witness:
  "(\<exists>msgs. fetch_today_texts day_client tehran 36000 = Some (msgs, [GetMessagesOffset 100 0])
       \<and> map message_id msgs = [2, 3]
       \<and> list_all (\<lambda>tm. content tm \<noteq> []) msgs)
   \<and> fetch_all_today_messages utc_day_client 43200
       = Some ([mk_message 2 60, mk_message 3 36000], [GetMessagesOffset 100 0])"
proof -
  have first: "\<exists>msgs. fetch_today_texts day_client tehran 36000
                         = Some (msgs, [GetMessagesOffset 100 0])
           \<and> map raw msgs = [Some (zoned_message 2 60 12600), Some (zoned_message 3 36000 12600)]
           \<and> map message_id msgs
               = [msg_id (zoned_message 2 60 12600), msg_id (zoned_message 3 36000 12600)]
           \<and> map date msgs
               = [msg_date (zoned_message 2 60 12600), msg_date (zoned_message 3 36000 12600)]
           \<and> map (\<lambda>tm. Some (content tm)) msgs
               = [msg_text (zoned_message 2 60 12600), msg_text (zoned_message 3 36000 12600)]"
    by (rule full_day_resolution [where c = day_client and tz = tehran and t = 36000
      and ?m3.0 = "zoned_message 3 36000 12600" and ?m2.0 = "zoned_message 2 60 12600"
      and ?m1.0 = "zoned_message 1 (- 600) 12600" and older = "[]"
      , THEN conjunct1, THEN mp, OF day_client_example])
  then obtain msgs where f: "fetch_today_texts day_client tehran 36000
                          = Some (msgs, [GetMessagesOffset 100 0])"
    and ids: "map message_id msgs
                = [msg_id (zoned_message 2 60 12600), msg_id (zoned_message 3 36000 12600)]"
    by (elim exE conjE)
  have p: "\<forall>m\<in>set (history day_client). 0 < msg_id m"
    by (simp add: day_client_def zoned_message_def)
  have "\<exists>msgs evs. fetch_today_texts day_client tehran 36000 = Some (msgs, evs)
          \<and> (\<forall>tm\<in>set msgs. \<exists>m\<in>set (history day_client).
                raw tm = Some m \<and> has_text m \<and> \<not> msg_media m \<and> content tm \<noteq> [])"
    by (rule full_day_resolution [where c = day_client and tz = tehran and t = 36000
      and ?m3.0 = "zoned_message 3 36000 12600" and ?m2.0 = "zoned_message 2 60 12600"
      and ?m1.0 = "zoned_message 1 (- 600) 12600" and older = "[]",
      THEN conjunct2, THEN conjunct1, THEN mp, OF p])
  then obtain msgs' evs'
    where f': "fetch_today_texts day_client tehran 36000 = Some (msgs', evs')"
      and texts': "\<forall>tm\<in>set msgs'. \<exists>m\<in>set (history day_client).
                 raw tm = Some m \<and> has_text m \<and> \<not> msg_media m \<and> content tm \<noteq> []"
    by (elim exE conjE)
  from f f' have "msgs' = msgs" by simp
  with texts' have texts: "\<forall>tm\<in>set msgs. \<exists>m\<in>set (history day_client).
                 raw tm = Some m \<and> has_text m \<and> \<not> msg_media m \<and> content tm \<noteq> []"
    by simp
  have "\<forall>tm\<in>set msgs. content tm \<noteq> []"
  proof
    fix tm
    assume tm: "tm \<in> set msgs"
    from texts [rule_format, OF tm] show "content tm \<noteq> []"
      by (elim bexE conjE)
  qed
  then have c: "list_all (\<lambda>tm. content tm \<noteq> []) msgs"
    by (simp only: list_all_iff)
  from ids have ids': "map message_id msgs = [2, 3]"
    by (simp only: zoned_message_def message.simps)
  from f ids' c have "\<exists>msgs. fetch_today_texts day_client tehran 36000
                                = Some (msgs, [GetMessagesOffset 100 0])
       \<and> map message_id msgs = [2, 3]
       \<and> list_all (\<lambda>tm. content tm \<noteq> []) msgs"
    by (intro exI [of _ msgs] conjI)
  then have gateway: "\<exists>msgs. fetch_today_texts day_client tehran 36000
                                = Some (msgs, [GetMessagesOffset 100 0])
       \<and> map message_id msgs = [2, 3]
       \<and> list_all (\<lambda>tm. content tm \<noteq> []) msgs" .
  have u0: "start_of_today_aware 43200 = \<lparr>wall = 0, tzinfo = Some 0\<rparr>"
    by (simp add: start_of_today_aware_def replace_midnight_def datetime_now_def utc_def)
  have u1: "history utc_day_client
              = [mk_message 3 36000, mk_message 2 60, mk_message 1 (- 600)]"
    by (simp add: utc_day_client_def)
  have u2: "instant (msg_date (mk_message 3 36000)) = instant (start_of_today_aware 43200) + 36000"
    "instant (msg_date (mk_message 2 60)) = instant (start_of_today_aware 43200) + 60"
    "instant (msg_date (mk_message 1 (- 600))) = instant (start_of_today_aware 43200) - 600"
    by (simp_all add: u0 mk_message_def instant_def)
  have e': "\<forall>m\<in>set []. instant (msg_date m) \<le> instant (msg_date (mk_message 1 (- 600)))"
    by simp
  have pre': "history utc_day_client
                = mk_message 3 36000 # mk_message 2 60 # mk_message 1 (- 600) # []
      \<and> instant (msg_date (mk_message 3 36000)) = instant (start_of_today_aware 43200) + 36000
      \<and> instant (msg_date (mk_message 2 60)) = instant (start_of_today_aware 43200) + 60
      \<and> instant (msg_date (mk_message 1 (- 600))) = instant (start_of_today_aware 43200) - 600
      \<and> (\<forall>m\<in>set []. instant (msg_date m) \<le> instant (msg_date (mk_message 1 (- 600))))"
    by (intro conjI u1 u2 e')
  have legacy: "fetch_all_today_messages utc_day_client 43200
     = Some ([mk_message 2 60, mk_message 3 36000], [GetMessagesOffset 100 0])"
    by (rule full_day_resolution [where c = utc_day_client and t = 43200
      and ?m3.0 = "mk_message 3 36000" and ?m2.0 = "mk_message 2 60"
      and ?m1.0 = "mk_message 1 (- 600)" and older = "[]"
      and tz = utc, THEN conjunct2, THEN conjunct2, THEN mp, OF pre'])
  from gateway legacy show ?thesis by (intro conjI)
qed

section \<open>The refresh of the continuous loop\<close>

lemma fetch_today_loop_events:
  assumes "fetch_today_loop c d off msgs evs = Some y"
  shows "\<exists>rest. snd y = evs @ GetMessagesOffset 100 off # rest \<and> list_all is_fetch rest"
  using assms
proof (induct rule: fetch_today_loop.raw_induct [rotated 1, consumes 1, case_names step])
  case (step loop c d off msgs evs y)
  let ?chunk = "get_messages_offset c 100 off"
  let ?msgs' = "msgs @ scan_today d ?chunk"
  let ?evs' = "evs @ [GetMessagesOffset 100 off]"
  note cases = paging_step [OF step(2)]
  from cases consider "Some y = Some (msgs, ?evs')" | "Some y = Some (?msgs', ?evs')"
    | "loop c d (msg_id (last ?chunk)) ?msgs' ?evs' = Some y"
    by metis
  then show ?case
  proof cases
    case 1
    then have "snd y = evs @ GetMessagesOffset 100 off # [] \<and> list_all is_fetch []" by simp
    then show ?thesis by (rule exI)
  next
    case 2
    then have "snd y = evs @ GetMessagesOffset 100 off # [] \<and> list_all is_fetch []" by simp
    then show ?thesis by (rule exI)
  next
    case 3
    from step(1) [OF 3] obtain rest
      where r: "snd y = ?evs' @ GetMessagesOffset 100 (msg_id (last ?chunk)) # rest"
        and f: "list_all is_fetch rest"
      by (elim exE conjE)
    from r f have "snd y = evs @ GetMessagesOffset 100 off
                     # (GetMessagesOffset 100 (msg_id (last ?chunk)) # rest)
                 \<and> list_all is_fetch (GetMessagesOffset 100 (msg_id (last ?chunk)) # rest)"
      by simp
    then show ?thesis by (rule exI)
  qed
qed

lemma fetch_today_texts_events:
  assumes "fetch_today_texts c tz t = Some (msgs, evs)"
  shows "\<exists>rest. evs = GetMessagesOffset 100 0 # rest \<and> list_all is_fetch rest"
proof -
  from assms obtain y where y: "fetch_today_loop c (start_of_today tz t) 0 [] [] = Some y"
    and e: "evs = snd y"
    by (auto simp add: fetch_today_texts_def case_prod_beta)
  from fetch_today_loop_events [OF y] e show ?thesis by simp
qed

lemma getitem_in_range: "0 \<le> i \<Longrightarrow> i < int (length xs) \<Longrightarrow> getitem xs i = Inr (xs ! nat i)"
  by (simp add: getitem_def)

lemma round_robin_loop_run:
  assumes "0 \<le> i" and "i < int (length ms)"
  shows "round_robin_loop ms k i
           = (map (\<lambda>j. ((i + int j) mod int (length ms),
                         ms ! nat ((i + int j) mod int (length ms)))) [0..<k], None)"
  using assms
proof (induction k arbitrary: i)
  case 0
  show ?case by simp
next
  case (Suc k)
  let ?L = "int (length ms)"
  let ?i' = "(i + 1) mod ?L"
  from Suc.prems have L: "0 < ?L" by linarith
  then have r: "0 \<le> ?i'" "?i' < ?L" by simp_all
  have shift: "(?i' + int j) mod ?L = (i + int (Suc j)) mod ?L" for j
  proof -
    have "(?i' + int j) mod ?L = ((i + 1) + int j) mod ?L" by (rule mod_add_left_eq)
    also have "(i + 1) + int j = i + int (Suc j)" by simp
    finally show ?thesis .
  qed
  from Suc.prems have here: "(i + int 0) mod ?L = i" by simp
  have upt: "[0..<Suc k] = 0 # map Suc [0..<k]"
    by (simp only: upt_conv_Cons [OF zero_less_Suc] map_Suc_upt)
  have "round_robin_loop ms (Suc k) i
          = ((i, ms ! nat i)
             # map (\<lambda>j. ((?i' + int j) mod ?L, ms ! nat ((?i' + int j) mod ?L))) [0..<k], None)"
    using Suc.prems Suc.IH [OF r] by (simp add: getitem_in_range)
  also have "\<dots> = (map (\<lambda>j. ((i + int j) mod ?L, ms ! nat ((i + int j) mod ?L)))
                      [0..<Suc k], None)"
    unfolding upt using here by (simp add: shift comp_def del: upt_Suc)
  finally show ?case .
qed

lemma round_robin_from_zero:
  assumes "ms \<noteq> []"
  shows "round_robin ms 0 = (map (\<lambda>j. (int j, ms ! j)) [0..<length ms], None)"
proof -
  from assms have "round_robin ms 0 = round_robin_loop ms (length ms) 0"
    by (simp add: round_robin_def)
  also from assms have "\<dots> = (map (\<lambda>j. ((0 + int j) mod int (length ms),
                         ms ! nat ((0 + int j) mod int (length ms)))) [0..<length ms], None)"
    by (intro round_robin_loop_run) simp_all
  also have "map (\<lambda>j. ((0 + int j) mod int (length ms),
                         ms ! nat ((0 + int j) mod int (length ms)))) [0..<length ms]
               = map (\<lambda>j. (int j, ms ! j)) [0..<length ms]"
    by (rule map_cong) simp_all
  finally show ?thesis .
qed

lemma sweep_cursor: "fst (sweep c n tgs p ys i) = cursor_after ys i"
proof (induction ys arbitrary: n i)
  case Nil
  show ?case by (simp add: cursor_after_def)
next
  case (Cons y ys)
  obtain j msg where y: "y = (j, msg)" by (cases y)
  show ?case
    unfolding y by (simp add: case_prod_beta Cons.IH cursor_after_def)
qed

lemma forward_text_loop_no_fetch:
  "list_all (\<lambda>e. \<not> is_fetch e) (snd (forward_text_loop c n tgs m d))"
proof (induction tgs arbitrary: n)
  case Nil
  show ?case by simp
next
  case (Cons tg tgs)
  show ?case
    by (cases "forward_result c n tg [m]") (simp_all add: case_prod_beta Cons.IH)
qed

lemma forward_text_no_fetch:
  "list_all (\<lambda>e. \<not> is_fetch e) (snd (forward_text c n tgs msg d))"
  by (cases "raw msg") (simp_all add: forward_text_def forward_text_loop_no_fetch)

lemma sweep_no_fetch:
  "list_all (\<lambda>e. \<not> is_fetch e) (snd (snd (sweep c n tgs p ys i)))"
proof (induction ys arbitrary: n i)
  case Nil
  show ?case by simp
next
  case (Cons y ys)
  obtain j msg where y: "y = (j, msg)" by (cases y)
  show ?case
    unfolding y by (simp add: case_prod_beta Cons.IH forward_text_no_fetch)
qed

lemma cursor_after_full_sweep:
  assumes "ms \<noteq> []"
  shows "cursor_after (map (\<lambda>j. (int j, ms ! j)) [0..<length ms]) i = int (length ms) - 1"
proof -
  from assms obtain k where k: "length ms = Suc k" by (cases ms) simp_all
  show ?thesis unfolding k by (simp add: cursor_after_def)
qed

lemma run_forever_step_admitted:
  assumes "in_allowed_window s t" and "entities c (source_channel s)"
    and "fetch_today_texts c (timezone s) t' = Some (msgs, fevs)"
  shows "run_forever_step s c t t' n fw =
     (if load_targets s c = [] then Some (Return, \<lparr>messages = msgs, idx = 0\<rparr>, n, fevs)
      else if msgs = []
      then Some (Continue, \<lparr>messages = msgs, idx = 0\<rparr>, n,
                 fevs @ [Sleep (sleep_between_messages s)])
      else (let sw = sweep c n (load_targets s c) (sleep_between_messages s)
                       (map (\<lambda>j. (int j, msgs ! j)) [0..<length msgs]) 0
            in Some (Continue, \<lparr>messages = msgs, idx = fst sw\<rparr>, fst (snd sw),
                     fevs @ snd (snd sw))))"
proof (cases "msgs = []")
  case True
  with assms show ?thesis by (simp add: run_forever_step_def Let_def)
next
  case False
  with assms show ?thesis
    by (simp add: run_forever_step_def Let_def case_prod_beta round_robin_from_zero)
qed

lemma admitted_iteration_sweeps:
  assumes "in_allowed_window s t" and "entities c (source_channel s)"
    and "fetch_today_texts c (timezone s) t' = Some (msgs, fevs)"
  shows "\<exists>ctl i n' evs rest.
           run_forever_step s c t t' n fw
             = Some (ctl, \<lparr>messages = msgs, idx = i\<rparr>, n', fevs @ evs)
         \<and> fevs = GetMessagesOffset 100 0 # rest \<and> list_all is_fetch rest
         \<and> list_all (\<lambda>e. \<not> is_fetch e) evs
         \<and> (load_targets s c \<noteq> [] \<and> msgs \<noteq> [] \<longrightarrow>
               ctl = Continue \<and> i = int (length msgs) - 1
             \<and> (i, n', evs) = sweep c n (load_targets s c) (sleep_between_messages s)
                                 (map (\<lambda>j. (int j, msgs ! j)) [0..<length msgs]) 0)
         \<and> (load_targets s c = [] \<or> msgs = [] \<longrightarrow> i = 0 \<and> n' = n)"
proof -
  from fetch_today_texts_events [OF assms(3)] obtain rest
    where f: "fevs = GetMessagesOffset 100 0 # rest" and r: "list_all is_fetch rest"
    by (elim exE conjE)
  note step = run_forever_step_admitted [OF assms, of n fw]
  consider "load_targets s c = []" | "load_targets s c \<noteq> []" "msgs = []"
    | "load_targets s c \<noteq> []" "msgs \<noteq> []"
    by blast
  then show ?thesis
  proof cases
    case 1
    with step have "run_forever_step s c t t' n fw
                      = Some (Return, \<lparr>messages = msgs, idx = 0\<rparr>, n, fevs @ [])"
      by simp
    with f r 1 show ?thesis by (intro exI [of _ "[]"] exI [of _ rest] exI conjI) simp_all
  next
    case 2
    with step have "run_forever_step s c t t' n fw
                      = Some (Continue, \<lparr>messages = msgs, idx = 0\<rparr>, n,
                              fevs @ [Sleep (sleep_between_messages s)])"
      by simp
    with f r 2 show ?thesis
      by (intro exI [of _ "[Sleep (sleep_between_messages s)]"] exI [of _ rest] exI conjI)
        simp_all
  next
    case 3
    define sw where "sw = sweep c n (load_targets s c) (sleep_between_messages s)
                            (map (\<lambda>j. (int j, msgs ! j)) [0..<length msgs]) 0"
    from 3 step have a: "run_forever_step s c t t' n fw
                      = Some (Continue, \<lparr>messages = msgs, idx = fst sw\<rparr>, fst (snd sw),
                              fevs @ snd (snd sw))"
      by (simp add: sw_def Let_def)
    have b: "fst sw = int (length msgs) - 1"
      unfolding sw_def sweep_cursor by (rule cursor_after_full_sweep [OF 3(2)])
    have c: "list_all (\<lambda>e. \<not> is_fetch e) (snd (snd sw))"
      unfolding sw_def by (rule sweep_no_fetch)
    have d: "(fst sw, fst (snd sw), snd (snd sw))
               = sweep c n (load_targets s c) (sleep_between_messages s)
                   (map (\<lambda>j. (int j, msgs ! j)) [0..<length msgs]) 0"
      by (simp add: sw_def)
    have e: "load_targets s c \<noteq> [] \<and> msgs \<noteq> [] \<longrightarrow>
               Continue = Continue \<and> fst sw = int (length msgs) - 1
             \<and> (fst sw, fst (snd sw), snd (snd sw))
                 = sweep c n (load_targets s c) (sleep_between_messages s)
                     (map (\<lambda>j. (int j, msgs ! j)) [0..<length msgs]) 0"
      using b d by simp
    have g: "load_targets s c = [] \<or> msgs = [] \<longrightarrow> fst sw = 0 \<and> fst (snd sw) = n"
      using 3 by simp
    show ?thesis
      by (intro exI [of _ Continue] exI [of _ "fst sw"] exI [of _ "fst (snd sw)"]
          exI [of _ "snd (snd sw)"] exI [of _ rest] conjI a f r c e g)
  qed
qed


text \<open>
  C9 (as amended). In an admitted iteration of \<^verbatim>\<open>run_forever\<close> with the source available
  (its ids positive), whatever set and cursor the previous iterations left: the full-day
  window is fetched again, from the newest message on, and becomes the set; nothing is
  fetched after that; with targets and a non-empty set the cursor sweeps the new set once
  from index 0 and stops on its last index; otherwise the cursor is 0 and nothing is sent.
\<close>

theorem admitted_iteration_refetches:
  assumes "in_allowed_window s t" and "entities c (source_channel s)"
    and "\<forall>m\<in>set (history c). 0 < msg_id m"
  shows "\<exists>msgs fevs ctl i n' evs rest.
           fetch_today_texts c (timezone s) t' = Some (msgs, fevs)
         \<and> run_forever_step s c t t' n fw
             = Some (ctl, \<lparr>messages = msgs, idx = i\<rparr>, n', fevs @ evs)
         \<and> fevs = GetMessagesOffset 100 0 # rest \<and> list_all is_fetch rest
         \<and> list_all (\<lambda>e. \<not> is_fetch e) evs
         \<and> (load_targets s c \<noteq> [] \<and> msgs \<noteq> [] \<longrightarrow>
               ctl = Continue \<and> i = int (length msgs) - 1
             \<and> (i, n', evs) = sweep c n (load_targets s c) (sleep_between_messages s)
                                 (map (\<lambda>j. (int j, msgs ! j)) [0..<length msgs]) 0)
         \<and> (load_targets s c = [] \<or> msgs = [] \<longrightarrow> i = 0 \<and> n' = n)"
proof -
  from assms(3) have "\<exists>msgs fevs. fetch_today_texts c (timezone s) t' = Some (msgs, fevs)"
    by (rule fetch_today_texts_returns)
  then obtain msgs fevs where f: "fetch_today_texts c (timezone s) t' = Some (msgs, fevs)"
    by (elim exE)
  from admitted_iteration_sweeps [OF assms(1,2) f, of n fw]
  obtain ctl i n' evs rest
    where a: "run_forever_step s c t t' n fw
                = Some (ctl, \<lparr>messages = msgs, idx = i\<rparr>, n', fevs @ evs)"
      and b: "fevs = GetMessagesOffset 100 0 # rest" and r: "list_all is_fetch rest"
      and c: "list_all (\<lambda>e. \<not> is_fetch e) evs"
      and e: "load_targets s c \<noteq> [] \<and> msgs \<noteq> [] \<longrightarrow>
               ctl = Continue \<and> i = int (length msgs) - 1
             \<and> (i, n', evs) = sweep c n (load_targets s c) (sleep_between_messages s)
                                 (map (\<lambda>j. (int j, msgs ! j)) [0..<length msgs]) 0"
      and g: "load_targets s c = [] \<or> msgs = [] \<longrightarrow> i = 0 \<and> n' = n"
    by (elim exE conjE)
  show ?thesis
    by (intro exI [of _ msgs] exI [of _ fevs] exI [of _ ctl] exI [of _ i] exI [of _ n']
        exI [of _ evs] exI [of _ rest] conjI f a b r c e g)
qed

section \<open>An iteration on the example inputs\<close>

lemma demo_window: "in_allowed_window demo_settings 36000"
  by (simp add: in_allowed_window_def demo_settings_def datetime_now_def hour_def tehran_def)

lemma demo_source: "entities day_client (source_channel demo_settings)"
  by (simp add: day_client_def example_client_def demo_settings_def)

lemma demo_fetch:
  "fetch_today_texts day_client (timezone demo_settings) 36000
     = Some (day_messages, [GetMessagesOffset 100 0])"
proof -
  have "timezone demo_settings = tehran" by (simp add: demo_settings_def)
  then show ?thesis by (simp only: day_client_fetch)
qed

lemma demo_targets: "load_targets demo_settings day_client = [''@g1'', ''@g2'']"
  by (simp add: load_targets_def demo_settings_def)

lemma demo_pause: "sleep_between_messages demo_settings = 60"
  by (simp add: demo_settings_def)

lemma day_messages_sweep:
  "sweep day_client 0 [''@g1'', ''@g2''] 60
     (map (\<lambda>j. (int j, day_messages ! j)) [0..<length day_messages]) 0
   = (1, 4, [Forward ''@g1'' [2] Sent, Sleep 1, Forward ''@g2'' [2] SendFailed, Sleep 60,
             Forward ''@g1'' [3] Sent, Sleep 1, Forward ''@g2'' [3] SendFailed, Sleep 60])"
proof -
  have l: "[0..<length day_messages] = [0, 1]"
    by (simp add: day_messages_def upt_conv_Cons)
  have r: "forward_result day_client n tg ms = (if tg = ''@g2'' then SendFailed else Sent)"
    for n tg ms
    by (simp add: day_client_def example_client_def)
  show ?thesis
    unfolding l
    by (simp add: day_messages_def forward_text_def zoned_message_def r)
qed

lemma day_client_iteration:
  "run_forever_step demo_settings day_client 36000 36000 0 fw
     = Some (Continue, \<lparr>messages = day_messages, idx = 1\<rparr>, 4,
        [GetMessagesOffset 100 0,
         Forward ''@g1'' [2] Sent, Sleep 1, Forward ''@g2'' [2] SendFailed, Sleep 60,
         Forward ''@g1'' [3] Sent, Sleep 1, Forward ''@g2'' [3] SendFailed, Sleep 60])"
proof -
  have ne: "day_messages \<noteq> []" by (simp add: day_messages_def)
  show ?thesis
    by (simp only: run_forever_step_admitted [OF demo_window demo_source demo_fetch]
        demo_targets demo_pause day_messages_sweep ne Let_def)
      simp
qed

lemma day_client_ids: "\<forall>m\<in>set (history day_client). 0 < msg_id m"
  by (simp add: day_client_def zoned_message_def)

theorem admitted_iteration_refetches_witness:
  "in_allowed_window demo_settings 36000 \<and> entities day_client (source_channel demo_settings)
   \<and> list_all (\<lambda>m. 0 < msg_id m) (history day_client)
   \<and> (\<exists>n' evs.
         run_forever_step demo_settings day_client 36000 36000 0
           \<lparr>messages = day_messages, idx = 1\<rparr>
           = Some (Continue, \<lparr>messages = day_messages, idx = 1\<rparr>, n',
                   GetMessagesOffset 100 0 # evs)
       \<and> list_all (\<lambda>e. \<not> is_fetch e) evs)"
proof -
  from admitted_iteration_refetches [OF demo_window demo_source day_client_ids, of 36000 0
      "\<lparr>messages = day_messages, idx = 1\<rparr>"]
  obtain msgs fevs ctl i n' evs rest
    where f: "fetch_today_texts day_client (timezone demo_settings) 36000 = Some (msgs, fevs)"
      and a: "run_forever_step demo_settings day_client 36000 36000 0
                \<lparr>messages = day_messages, idx = 1\<rparr>
              = Some (ctl, \<lparr>messages = msgs, idx = i\<rparr>, n', fevs @ evs)"
      and b: "fevs = GetMessagesOffset 100 0 # rest"
      and c: "list_all (\<lambda>e. \<not> is_fetch e) evs"
      and e: "load_targets demo_settings day_client \<noteq> [] \<and> msgs \<noteq> [] \<longrightarrow>
               ctl = Continue \<and> i = int (length msgs) - 1
             \<and> (i, n', evs) = sweep day_client 0 (load_targets demo_settings day_client)
                                 (sleep_between_messages demo_settings)
                                 (map (\<lambda>j. (int j, msgs ! j)) [0..<length msgs]) 0"
    by (elim exE conjE)
  from f demo_fetch have m: "msgs = day_messages" and fe: "fevs = [GetMessagesOffset 100 0]"
    by simp_all
  have "load_targets demo_settings day_client \<noteq> [] \<and> msgs \<noteq> []"
    by (simp add: demo_targets m day_messages_def)
  note q = e [THEN mp, OF this]
  from q [THEN conjunct1] q [THEN conjunct2, THEN conjunct1]
  have "ctl = Continue" and "i = 1" by (simp_all add: m day_messages_def)
  with a m fe have "run_forever_step demo_settings day_client 36000 36000 0
                 \<lparr>messages = day_messages, idx = 1\<rparr>
               = Some (Continue, \<lparr>messages = day_messages, idx = 1\<rparr>, n',
                       GetMessagesOffset 100 0 # evs)"
    by simp
  with c have r: "\<exists>n' evs.
         run_forever_step demo_settings day_client 36000 36000 0
           \<lparr>messages = day_messages, idx = 1\<rparr>
           = Some (Continue, \<lparr>messages = day_messages, idx = 1\<rparr>, n',
                   GetMessagesOffset 100 0 # evs)
       \<and> list_all (\<lambda>e. \<not> is_fetch e) evs"
    by (intro exI [of _ n'] exI [of _ evs] conjI)
  have ids: "list_all (\<lambda>m. 0 < msg_id m) (history day_client)"
    by (simp add: day_client_def zoned_message_def)
  from demo_window demo_source ids r show ?thesis by (intro conjI)
qed

text \<open>
  The iteration before left the set resolved today, not empty, and the cursor on its last
  index; the clock is inside the window, on the same day. The next iteration fetches the
  window again and starts from index 0 (message 2), where a sweep resumed from the cursor
  kept would start from index 1 (message 3).
\<close>

theorem refresh_every_iteration_counterexample:
  "in_allowed_window demo_settings 36000
   \<and> \<not> spec_needs_refresh tehran 36000 36000 \<lparr>messages = day_messages, idx = 1\<rparr>
   \<and> run_forever_step demo_settings day_client 36000 36000 0
        \<lparr>messages = day_messages, idx = 1\<rparr>
     = Some (Continue, \<lparr>messages = day_messages, idx = 1\<rparr>, 4,
        [GetMessagesOffset 100 0,
         Forward ''@g1'' [2] Sent, Sleep 1, Forward ''@g2'' [2] SendFailed, Sleep 60,
         Forward ''@g1'' [3] Sent, Sleep 1, Forward ''@g2'' [3] SendFailed, Sleep 60])"
proof -
  have "\<not> spec_needs_refresh tehran 36000 36000 \<lparr>messages = day_messages, idx = 1\<rparr>"
    by (simp add: spec_needs_refresh_def day_messages_def)
  with demo_window day_client_iteration show ?thesis by (intro conjI)
qed

end
